theory Spec2Isabelle
  imports Complex_Main "HOL-Library.Word"
begin

unbundle bit_operations_syntax

section \<open>Bytes, errors and Python slices\<close>

text \<open>
  A Python \<open>bytes\<close> object is a list of bytes. Iterating over it yields Python integers
  in \<open>0..255\<close>, read here with \<open>uint\<close>.
\<close>

type_synonym byte = "8 word"

text \<open>The exceptions that can arise in the modelled code.\<close>

datatype error = ValueError | OSError | StructError

text \<open>
  Python's index clamping for slices: a negative index counts from the end, and every
  index is clamped to \<open>0..len\<close>. Slicing never raises.
\<close>

definition clamp_index :: "int \<Rightarrow> nat \<Rightarrow> nat" where
  "clamp_index i n = (if i < 0 then nat (int n + i) else min (nat i) n)"

text \<open>\<open>xs[lo:hi]\<close>\<close>

definition py_slice :: "int \<Rightarrow> int \<Rightarrow> 'a list \<Rightarrow> 'a list" where
  "py_slice lo hi xs =
     (let n = length xs; l = clamp_index lo n; h = clamp_index hi n
      in take (h - l) (drop l xs))"

text \<open>\<open>xs[:hi]\<close>\<close>

definition slice_to :: "int \<Rightarrow> 'a list \<Rightarrow> 'a list" where
  "slice_to hi xs = take (clamp_index hi (length xs)) xs"

text \<open>\<open>xs[lo:]\<close>\<close>

definition slice_from :: "int \<Rightarrow> 'a list \<Rightarrow> 'a list" where
  "slice_from lo xs = drop (clamp_index lo (length xs)) xs"

section \<open>CRC-16 (Modbus RTU)\<close>

text \<open>
  \<open>crc = (crc >> 1) ^ 0xA001 if crc & 1 else crc >> 1\<close>, on Python's unbounded integers.
\<close>

definition crc_shift :: "int \<Rightarrow> int" where
  "crc_shift crc = (if crc AND 1 \<noteq> 0 then drop_bit 1 crc XOR 0xA001 else drop_bit 1 crc)"

text \<open>The body of \<open>for ch in buf\<close>: \<open>crc ^= ch\<close>, then eight times the shift step.\<close>

definition crc_byte :: "int \<Rightarrow> byte \<Rightarrow> int" where
  "crc_byte crc ch = (crc_shift ^^ 8) (crc XOR uint ch)"

text \<open>
  \<open>struct.pack('<H', crc)\<close>: the low byte, then the high byte; \<open>struct.error\<close> when the
  value is outside \<open>0..0xFFFF\<close>.
\<close>

definition pack_H_le :: "int \<Rightarrow> error + byte list" where
  "pack_H_le v =
     (if 0 \<le> v \<and> v \<le> 0xFFFF then Inr [word_of_int (v AND 0xFF), word_of_int (drop_bit 8 v)]
      else Inl StructError)"

definition crc16_modbus :: "byte list \<Rightarrow> error + byte list" where
  "crc16_modbus buf = pack_H_le (foldl crc_byte 0xFFFF buf)"

subsection \<open>The checksum as the specification words it\<close>

text \<open>
  A 16-bit register, started at \<open>0xFFFF\<close>. Each input byte is XORed into the low byte of
  the register; then, eight times, the register is shifted right by one and, when the
  bit shifted out was set, XORed with \<open>0xA001\<close>. The result is encoded low byte first.
\<close>

definition spec_crc_bit :: "16 word \<Rightarrow> 16 word" where
  "spec_crc_bit r = (if bit r 0 then drop_bit 1 r XOR 0xA001 else drop_bit 1 r)"

definition spec_crc_byte :: "16 word \<Rightarrow> byte \<Rightarrow> 16 word" where
  "spec_crc_byte r b = (spec_crc_bit ^^ 8) (r XOR ucast b)"

definition spec_crc :: "byte list \<Rightarrow> 16 word" where
  "spec_crc bs = foldl spec_crc_byte 0xFFFF bs"

definition little_endian16 :: "16 word \<Rightarrow> byte list" where
  "little_endian16 r = [ucast r, ucast (drop_bit 8 r)]"

section \<open>Formatting and parsing of numbers\<close>

text \<open>The digit characters that Python's \<open>X\<close> format type produces.\<close>

definition hex_digit :: "nat \<Rightarrow> char" where
  "hex_digit d = ''0123456789ABCDEF'' ! d"

text \<open>The upper-case hexadecimal digits of a natural number, most significant first.\<close>

fun hex_digits :: "nat \<Rightarrow> string" where
  "hex_digits n = (if n < 16 then [hex_digit n] else hex_digits (n div 16) @ [hex_digit (n mod 16)])"

declare hex_digits.simps [simp del]

text \<open>\<open>f'{n:X}'\<close>\<close>

definition fmt_X :: "int \<Rightarrow> string" where
  "fmt_X n = (if n < 0 then CHR ''-'' # hex_digits (nat (- n)) else hex_digits (nat n))"

text \<open>
  \<open>f'{n:08X}'\<close>: zero padding up to a total width of 8, placed after the sign; a longer
  number is not truncated.
\<close>

definition zfill :: "nat \<Rightarrow> string \<Rightarrow> string" where
  "zfill width s = replicate (width - length s) (CHR ''0'') @ s"

definition fmt_08X :: "int \<Rightarrow> string" where
  "fmt_08X n =
     (if n < 0 then CHR ''-'' # zfill 7 (hex_digits (nat (- n))) else zfill 8 (hex_digits (nat n)))"

text \<open>The value of an ASCII decimal digit.\<close>

definition dec_val :: "char \<Rightarrow> int option" where
  "dec_val c = map_of (zip ''0123456789'' [0, 1, 2, 3, 4, 5, 6, 7, 8, 9]) c"

fun parse_decimal :: "int \<Rightarrow> string \<Rightarrow> int option" where
  "parse_decimal acc [] = Some acc"
| "parse_decimal acc (c # cs) =
     (case dec_val c of None \<Rightarrow> None | Some d \<Rightarrow> parse_decimal (10 * acc + d) cs)"

text \<open>
  \<open>int(s)\<close> for a string of ASCII letters and digits, the only strings the program hands
  to it (the output of the \<open>X\<close> format, and serial numbers): a non-empty string of decimal
  digits is read in base 10, anything else raises \<open>ValueError\<close>. Signs, surrounding
  white space and underscores, which \<open>int\<close> also accepts, are outside that alphabet.
  Python's integers are unbounded; the interpreter's configurable limit on the length of
  a decimal string (4300 digits by default in CPython 3.11 and later) is not modelled: the
  decoders convert at most 8 digits and the poll loop 6.
\<close>

definition int_of_str :: "string \<Rightarrow> error + int" where
  "int_of_str s =
     (if s = [] then Inl ValueError
      else case parse_decimal 0 s of None \<Rightarrow> Inl ValueError | Some v \<Rightarrow> Inr v)"

text \<open>The value of a hexadecimal digit of either case.\<close>

definition hex_val :: "char \<Rightarrow> nat option" where
  "hex_val c =
     map_of (zip ''0123456789abcdefABCDEF''
       [0, 1, 2, 3, 4, 5, 6, 7, 8, 9, 10, 11, 12, 13, 14, 15, 10, 11, 12, 13, 14, 15]) c"

definition is_space :: "char \<Rightarrow> bool" where
  "is_space c = (c \<in> set [CHR '' '', CHR 0x09, CHR 0x0A, CHR 0x0B, CHR 0x0C, CHR 0x0D])"

text \<open>
  \<open>bytes.fromhex(s)\<close>: white space before a byte is skipped, then two hexadecimal digits
  make one byte; anything else raises \<open>ValueError\<close>.
\<close>

fun bytes_fromhex :: "string \<Rightarrow> error + byte list" where
  "bytes_fromhex [] = Inr []"
| "bytes_fromhex [c] = (if is_space c then Inr [] else Inl ValueError)"
| "bytes_fromhex (c # d # cs) =
     (if is_space c then bytes_fromhex (d # cs)
      else case (hex_val c, hex_val d) of
             (Some a, Some b) \<Rightarrow>
               (case bytes_fromhex cs of
                  Inl e \<Rightarrow> Inl e
                | Inr bs \<Rightarrow> Inr (of_nat (16 * a + b) # bs))
           | _ \<Rightarrow> Inl ValueError)"

section \<open>BCD\<close>

text \<open>\<open>string.lstrip('0')\<close>\<close>

definition lstrip0 :: "string \<Rightarrow> string" where
  "lstrip0 s = dropWhile (\<lambda>c. c = CHR ''0'') s"

text \<open>\<open>f'{byte>>4:X}{byte&0xF:X}'\<close>\<close>

definition byte_hex :: "byte \<Rightarrow> string" where
  "byte_hex byte = fmt_X (drop_bit 4 (uint byte)) @ fmt_X (uint byte AND 0xF)"

text \<open>\<open>int(''.join(... for byte in b).lstrip('0') or '0')\<close>\<close>

definition bcd_to_int :: "byte list \<Rightarrow> error + int" where
  "bcd_to_int b =
     (let s = lstrip0 (concat (map byte_hex b))
      in int_of_str (if s = [] then ''0'' else s))"

subsection \<open>BCD as the specification words it\<close>

text \<open>
  Each byte contributes two decimal digits, the high nibble and then the low nibble; the
  digits of all bytes, in input order, are read as one unsigned decimal number. A byte
  sequence is well formed when every nibble is at most 9.
\<close>

definition hi_nibble :: "byte \<Rightarrow> nat" where
  "hi_nibble b = unat b div 16"

definition lo_nibble :: "byte \<Rightarrow> nat" where
  "lo_nibble b = unat b mod 16"

definition bcd_ok :: "byte list \<Rightarrow> bool" where
  "bcd_ok bs = list_all (\<lambda>b. hi_nibble b < 10 \<and> lo_nibble b < 10) bs"

definition bcd_digits :: "byte list \<Rightarrow> nat list" where
  "bcd_digits bs = concat (map (\<lambda>b. [hi_nibble b, lo_nibble b]) bs)"

definition decimal_value :: "nat list \<Rightarrow> nat" where
  "decimal_value ds = foldl (\<lambda>a d. 10 * a + d) 0 ds"

definition bcd_value :: "byte list \<Rightarrow> int" where
  "bcd_value bs = int (decimal_value (bcd_digits bs))"

section \<open>Field decoders\<close>

text \<open>
  \<open>bcd_to_int(...)/10\<close> is Python's true division of an integer: it yields the double
  nearest to the exact quotient. The model keeps the exact quotient, as a real number;
  the power is returned as the integer itself.
\<close>

definition parse_63 :: "byte list \<Rightarrow> error + (real \<times> real \<times> int)" where
  "parse_63 p =
     (case bcd_to_int (py_slice 0 2 p) of
        Inl e \<Rightarrow> Inl e
      | Inr u \<Rightarrow>
          (case bcd_to_int (py_slice 2 4 p) of
             Inl e \<Rightarrow> Inl e
           | Inr i \<Rightarrow>
               (case bcd_to_int (py_slice 4 7 p) of
                  Inl e \<Rightarrow> Inl e
                | Inr pw \<Rightarrow> Inr (real_of_int u / 10, real_of_int i / 100, pw))))"

definition parse_27 :: "byte list \<Rightarrow> error + (real \<times> real)" where
  "parse_27 p =
     (case bcd_to_int (py_slice 0 4 p) of
        Inl e \<Rightarrow> Inl e
      | Inr t1 \<Rightarrow>
          (case bcd_to_int (py_slice 4 8 p) of
             Inl e \<Rightarrow> Inl e
           | Inr t2 \<Rightarrow> Inr (real_of_int t1 / 100, real_of_int t2 / 100)))"

section \<open>The transport\<close>

text \<open>
  What one call of \<open>sock.recv\<close> does: it returns bytes (none when the peer has closed
  the connection), raises \<open>socket.timeout\<close>, or raises another \<open>OSError\<close>.
\<close>

datatype recv_result = Chunk "byte list" | RecvTimeout | RecvError

text \<open>
  The environment of one run. The answers of the outside world are given in advance as
  three sequences: whether the \<open>k\<close>-th \<open>sendall\<close> succeeds, what the \<open>k\<close>-th reading of
  \<open>time.time()\<close> returns, and what the \<open>k\<close>-th \<open>recv\<close> does. The state records the frames
  handed to \<open>sendall\<close> so far and how many clock readings and \<open>recv\<close> calls were made.
\<close>

record world =
  send_ok :: "nat \<Rightarrow> bool"
  clock :: "nat \<Rightarrow> real"
  recv_res :: "nat \<Rightarrow> recv_result"
  sent :: "byte list list"
  n_time :: nat
  n_recv :: nat

text \<open>\<open>sock.sendall(frame)\<close>; the result is \<open>False\<close> when it raises \<open>OSError\<close>.\<close>

definition sock_sendall :: "byte list \<Rightarrow> world \<Rightarrow> bool \<times> world" where
  "sock_sendall frame w = (send_ok w (length (sent w)), w\<lparr>sent := sent w @ [frame]\<rparr>)"

text \<open>\<open>time.time()\<close>\<close>

definition time_time :: "world \<Rightarrow> real \<times> world" where
  "time_time w = (clock w (n_time w), w\<lparr>n_time := Suc (n_time w)\<rparr>)"

text \<open>\<open>sock.recv(bufsize)\<close>\<close>

definition sock_recv :: "nat \<Rightarrow> world \<Rightarrow> recv_result \<times> world" where
  "sock_recv bufsize w = (recv_res w (n_recv w), w\<lparr>n_recv := Suc (n_recv w)\<rparr>)"

text \<open>The module constants \<open>TIMEOUT\<close> and \<open>RETRY\<close>.\<close>

record settings =
  TIMEOUT :: real
  RETRY :: nat

definition default_settings :: settings where
  "default_settings = \<lparr>TIMEOUT = 8 / 10, RETRY = 1\<rparr>"

section \<open>Frame exchange\<close>

text \<open>
  The inner loop \<open>while time.time() < deadline\<close> of \<open>send_frame\<close>. The result is
  \<open>Some resp\<close> when the function returns \<open>resp\<close> from inside the loop, and \<open>None\<close> when the
  loop is left (by \<open>break\<close>, or because the deadline has passed), which ends the attempt.
  An \<open>OSError\<close> of \<open>recv\<close> other than the timeout is not caught.
\<close>

function recv_loop :: "real \<Rightarrow> byte list \<Rightarrow> world \<Rightarrow> error + (byte list option \<times> world)" where
  "recv_loop deadline resp w =
     (case time_time w of
        (now, w1) \<Rightarrow>
          if now < deadline then
            (case sock_recv 256 w1 of
               (RecvError, w2) \<Rightarrow> Inl OSError
             | (RecvTimeout, w2) \<Rightarrow> Inr (None, w2)
             | (Chunk chunk, w2) \<Rightarrow>
                 if chunk = [] then Inr (None, w2)
                 else if length (resp @ chunk) \<ge> 6 then Inr (Some (resp @ chunk), w2)
                 else recv_loop deadline (resp @ chunk) w2)
          else Inr (None, w1))"
  by pat_completeness auto
termination
  by (relation "measure (\<lambda>(deadline, resp, w). 6 - length resp)") (auto simp: neq_Nil_conv)

declare recv_loop.simps [simp del]

text \<open>
  The loop \<open>for _ in range(RETRY)\<close>, with the number of attempts still to make. A failed
  \<open>sendall\<close> returns \<open>None\<close> at once.
\<close>

fun attempts :: "real \<Rightarrow> byte list \<Rightarrow> nat \<Rightarrow> world \<Rightarrow> error + (byte list option \<times> world)" where
  "attempts tmo frame 0 w = Inr (None, w)"
| "attempts tmo frame (Suc n) w =
     (case sock_sendall frame w of
        (False, w1) \<Rightarrow> Inr (None, w1)
      | (True, w1) \<Rightarrow>
          (case time_time w1 of
             (now, w2) \<Rightarrow>
               (case recv_loop (now + tmo) [] w2 of
                  Inl e \<Rightarrow> Inl e
                | Inr (Some resp, w3) \<Rightarrow> Inr (Some resp, w3)
                | Inr (None, w3) \<Rightarrow> attempts tmo frame n w3)))"

text \<open>\<open>raw = bytes.fromhex(addr_hex + cmd_hex); frame = raw + crc16_modbus(raw)\<close>\<close>

definition build_frame :: "string \<Rightarrow> string \<Rightarrow> error + byte list" where
  "build_frame addr_hex cmd_hex =
     (case bytes_fromhex (addr_hex @ cmd_hex) of
        Inl e \<Rightarrow> Inl e
      | Inr raw \<Rightarrow> (case crc16_modbus raw of Inl e \<Rightarrow> Inl e | Inr c \<Rightarrow> Inr (raw @ c)))"

definition send_frame ::
  "settings \<Rightarrow> string \<Rightarrow> string \<Rightarrow> world \<Rightarrow> error + (byte list option \<times> world)" where
  "send_frame cfg addr_hex cmd_hex w =
     (case build_frame addr_hex cmd_hex of
        Inl e \<Rightarrow> Inl e
      | Inr frame \<Rightarrow> attempts (TIMEOUT cfg) frame (RETRY cfg) w)"

section \<open>Poll driver\<close>

text \<open>
  The test \<open>not r or crc16_modbus(r[:-2]) != r[-2:]\<close> on the result of an exchange;
  \<open>not r\<close> holds for \<open>None\<close> and for the empty byte string.
\<close>

definition bad_response :: "byte list option \<Rightarrow> error + bool" where
  "bad_response r =
     (case r of
        None \<Rightarrow> Inr True
      | Some resp \<Rightarrow>
          if resp = [] then Inr True
          else (case crc16_modbus (slice_to (- 2) resp) of
                  Inl e \<Rightarrow> Inl e
                | Inr c \<Rightarrow> Inr (c \<noteq> slice_from (- 2) resp)))"

text \<open>
  A printed row, with the port and the serial number: the line that reports no answer
  to command \<open>63h\<close> or a bad CRC, or a line of values in which the two energy columns hold either
  numbers or the placeholder \<open>-\<close> (here \<open>None\<close>). The layout of the text is not modelled.
\<close>

datatype row =
  NoAnswer int string
| Reading int string real real int "real option" "real option"

text \<open>The body of \<open>for serial in serials\<close>.\<close>

definition poll_device :: "settings \<Rightarrow> int \<Rightarrow> string \<Rightarrow> world \<Rightarrow> error + (row \<times> world)" where
  "poll_device cfg port serial w =
     (case int_of_str serial of
        Inl e \<Rightarrow> Inl e
      | Inr n \<Rightarrow>
          (case send_frame cfg (fmt_08X n) ''63'' w of
             Inl e \<Rightarrow> Inl e
           | Inr (r63, w1) \<Rightarrow>
               (case bad_response r63 of
                  Inl e \<Rightarrow> Inl e
                | Inr True \<Rightarrow> Inr (NoAnswer port serial, w1)
                | Inr False \<Rightarrow>
                    (case parse_63 (py_slice 5 (- 2) (the r63)) of
                       Inl e \<Rightarrow> Inl e
                     | Inr (U, I, P) \<Rightarrow>
                         (case send_frame cfg (fmt_08X n) ''27'' w1 of
                            Inl e \<Rightarrow> Inl e
                          | Inr (r27, w2) \<Rightarrow>
                              (case bad_response r27 of
                                 Inl e \<Rightarrow> Inl e
                               | Inr True \<Rightarrow> Inr (Reading port serial U I P None None, w2)
                               | Inr False \<Rightarrow>
                                   (case parse_27 (py_slice 5 (- 2) (the r27)) of
                                      Inl e \<Rightarrow> Inl e
                                    | Inr (T1, T2) \<Rightarrow>
                                        Inr (Reading port serial U I P (Some T1) (Some T2),
                                             w2))))))))"

text \<open>
  The loop over the serial numbers of one port, on one connection: the rows printed, and
  the final state or the exception that ended the loop.
\<close>

fun poll_serials ::
  "settings \<Rightarrow> int \<Rightarrow> string list \<Rightarrow> world \<Rightarrow> row list \<times> (error + world)" where
  "poll_serials cfg port [] w = ([], Inr w)"
| "poll_serials cfg port (serial # serials) w =
     (case poll_device cfg port serial w of
        Inl e \<Rightarrow> ([], Inl e)
      | Inr (r, w1) \<Rightarrow>
          (case poll_serials cfg port serials w1 of (rows, res) \<Rightarrow> (r # rows, res)))"

section \<open>Notions used to state the properties\<close>

text \<open>The bytes that the \<open>k\<close> calls of \<open>recv\<close> numbered \<open>i, ..., i + k - 1\<close> return.\<close>

definition chunk_bytes :: "recv_result \<Rightarrow> byte list" where
  "chunk_bytes r = (case r of Chunk c \<Rightarrow> c | RecvTimeout \<Rightarrow> [] | RecvError \<Rightarrow> [])"

definition received :: "world \<Rightarrow> nat \<Rightarrow> nat \<Rightarrow> byte list" where
  "received w i k = concat (map (\<lambda>j. chunk_bytes (recv_res w j)) [i..<i + k])"

text \<open>
  The serial numbers that the plan file admits (\<open>s.isdigit() and len(s) == 6\<close>), and that
  the default plan holds: six ASCII digits.
\<close>

definition is_serial :: "string \<Rightarrow> bool" where
  "is_serial s = (length s = 6 \<and> list_all (\<lambda>c. dec_val c \<noteq> None) s)"

text \<open>
  A transport for tests, at the start of a run: the outcomes of the first calls of
  \<open>sendall\<close> and of \<open>recv\<close> are listed; after them every \<open>sendall\<close> succeeds and every
  \<open>recv\<close> times out. The clock stands still, so that no deadline passes.
\<close>

definition scripted :: "bool list \<Rightarrow> recv_result list \<Rightarrow> world" where
  "scripted sends recvs =
     \<lparr>send_ok = (\<lambda>k. if k < length sends then sends ! k else True),
      clock = (\<lambda>k. 0),
      recv_res = (\<lambda>k. if k < length recvs then recvs ! k else RecvTimeout),
      sent = [], n_time = 0, n_recv = 0\<rparr>"

section \<open>Properties of the checksum\<close>

lemma take_bit_uint16: "take_bit 16 (uint r) = uint r" for r :: "16 word"
  by (rule take_bit_int_eq_self) (use uint_lt2p [of r] in simp_all)

lemma low_bit_uint16: "(uint r AND 1 \<noteq> 0) = bit r 0" for r :: "16 word"
proof -
  have "bit r 0 = bit (uint r) 0" by (simp add: bit_uint_iff)
  also have "\<dots> = odd (uint r)" by (simp add: bit_0)
  also have "\<dots> = (uint r AND 1 \<noteq> 0)" by (simp add: and_one_eq odd_iff_mod_2_eq_one)
  finally show ?thesis by simp
qed

lemma uint_spec_crc_bit: "uint (spec_crc_bit r) = crc_shift (uint r)"
  unfolding spec_crc_bit_def crc_shift_def low_bit_uint16
  by (simp add: uint_xor unsigned_drop_bit_eq take_bit_uint16)

lemma uint_spec_crc_bits: "uint ((spec_crc_bit ^^ n) r) = (crc_shift ^^ n) (uint r)"
  by (induction n) (simp_all add: uint_spec_crc_bit)

lemma uint_ucast_byte: "uint (ucast b :: 16 word) = uint b" for b :: byte
  by (simp add: uint_up_ucast is_up)

lemma uint_spec_crc_byte: "uint (spec_crc_byte r b) = crc_byte (uint r) b"
  by (simp add: spec_crc_byte_def crc_byte_def uint_spec_crc_bits uint_xor uint_ucast_byte)

lemma uint_spec_crc_fold: "uint (foldl spec_crc_byte r bs) = foldl crc_byte (uint r) bs"
  by (induction bs arbitrary: r) (simp_all add: uint_spec_crc_byte)

lemma low_byte_uint16: "(word_of_int (uint r AND 0xFF) :: byte) = ucast r" for r :: "16 word"
proof -
  have m: "(0xFF::int) = mask 8" by (simp add: mask_eq_exp_minus_1)
  show ?thesis unfolding m
    by (rule bit_word_eqI) (auto simp add: bit_simps)
qed

lemma high_byte_uint16:
  "(word_of_int (drop_bit 8 (uint r)) :: byte) = ucast (drop_bit 8 r)" for r :: "16 word"
  by (rule bit_word_eqI) (auto simp add: bit_simps)

lemma pack_H_le_uint: "pack_H_le (uint r) = Inr (little_endian16 r)" for r :: "16 word"
proof -
  have "uint r < 2 ^ 16" using uint_bounded [of r] by simp
  then have "uint r \<le> 0xFFFF" by simp
  then show ?thesis
    by (simp add: pack_H_le_def little_endian16_def low_byte_uint16 high_byte_uint16)
qed

lemma crc16_modbus_refines: "crc16_modbus b = Inr (little_endian16 (spec_crc b))"
proof -
  have "foldl crc_byte 0xFFFF b = uint (spec_crc b)"
    using uint_spec_crc_fold [of "0xFFFF" b] by (simp add: spec_crc_def)
  then show ?thesis by (simp add: crc16_modbus_def pack_H_le_uint)
qed

text \<open>
  Claim C1. For every byte sequence, the empty one included, \<open>crc16_modbus\<close> raises
  nothing and returns the two bytes, low byte first, of the register that the bit-serial
  computation of the specification leaves: start at \<open>0xFFFF\<close>, XOR each byte into the low
  byte, then eight times shift right and XOR with \<open>0xA001\<close> when the low bit was set.
\<close>

theorem crc16_modbus_is_spec_crc:
  "crc16_modbus b = Inr (little_endian16 (spec_crc b))
   \<and> length (little_endian16 (spec_crc b)) = 2
   \<and> crc16_modbus [] = Inr [0xFF, 0xFF]"
proof -
  have "crc16_modbus [] = Inr [0xFF, 0xFF]"
    by (simp add: crc16_modbus_def pack_H_le_def)
  then show ?thesis
    using crc16_modbus_refines [of b] by (simp add: little_endian16_def)
qed

section \<open>Frames and their validation\<close>

lemma crc16_modbus_length: "crc16_modbus b = Inr c \<Longrightarrow> length c = 2"
  by (auto simp: crc16_modbus_refines little_endian16_def)

lemma slice_to_append2: "length c = 2 \<Longrightarrow> slice_to (- 2) (b @ c) = b"
  by (simp add: slice_to_def clamp_index_def)

lemma slice_from_append2: "length c = 2 \<Longrightarrow> slice_from (- 2) (b @ c) = c"
  by (simp add: slice_from_def clamp_index_def)

lemma bad_response_append_crc:
  "crc16_modbus b = Inr c \<Longrightarrow> bad_response (Some (b @ c)) = Inr False"
  by (frule crc16_modbus_length) (auto simp: bad_response_def slice_to_append2 slice_from_append2)

lemma hex_digits_548973: "hex_digits 548973 = ''8606D''"
  by (simp add: hex_digits.simps hex_digit_def)

lemma fmt_08X_548973: "fmt_08X 548973 = ''0008606D''"
  by (simp add: fmt_08X_def zfill_def hex_digits_548973 numeral_3_eq_3)

lemma int_of_str_548973: "int_of_str ''548973'' = Inr 548973"
  by (simp add: int_of_str_def dec_val_def)

lemma build_frame_548973_63:
  "build_frame ''0008606D'' ''63'' = Inr [0x00, 0x08, 0x60, 0x6D, 0x63, 0x4A, 0xC7]"
  by code_simp

section \<open>Nibbles and digits\<close>

lemma hi_nibble_eq: "drop_bit 4 (uint b) = int (hi_nibble b)" for b :: byte
  by (simp add: hi_nibble_def drop_bit_eq_div zdiv_int)

lemma lo_nibble_eq: "uint b AND 0xF = int (lo_nibble b)" for b :: byte
proof -
  have m: "(0xF::int) = mask 4" by (simp add: mask_eq_exp_minus_1)
  show ?thesis unfolding m by (simp add: lo_nibble_def zmod_int take_bit_eq_mod flip: take_bit_eq_mask)
qed

lemma hi_nibble_lt: "hi_nibble b < 16"
proof -
  have "unat b < 2 ^ 8" using unsigned_less [of b, where ?'a = nat] by simp
  then show ?thesis by (simp add: hi_nibble_def)
qed

lemma lo_nibble_lt: "lo_nibble b < 16"
  by (simp add: lo_nibble_def)

lemma hex_digits_small: "n < 16 \<Longrightarrow> hex_digits n = [hex_digit n]"
  by (subst hex_digits.simps) simp

lemma byte_hex_eq: "byte_hex b = [hex_digit (hi_nibble b), hex_digit (lo_nibble b)]"
  by (simp add: byte_hex_def hi_nibble_eq lo_nibble_eq fmt_X_def hex_digits_small
      hi_nibble_lt lo_nibble_lt)

lemma lt16_cases:
  "d < 16 \<Longrightarrow> d = 0 \<or> d = 1 \<or> d = 2 \<or> d = 3 \<or> d = 4 \<or> d = 5 \<or> d = 6 \<or> d = 7 \<or> d = 8
     \<or> d = 9 \<or> d = 10 \<or> d = 11 \<or> d = 12 \<or> d = 13 \<or> d = 14 \<or> d = (15::nat)"
  by arith

lemma hex_digit_simps:
  "hex_digit 0 = CHR ''0''" "hex_digit (Suc 0) = CHR ''1''" "hex_digit 2 = CHR ''2''"
  "hex_digit 3 = CHR ''3''" "hex_digit 4 = CHR ''4''" "hex_digit 5 = CHR ''5''"
  "hex_digit 6 = CHR ''6''" "hex_digit 7 = CHR ''7''" "hex_digit 8 = CHR ''8''"
  "hex_digit 9 = CHR ''9''" "hex_digit 10 = CHR ''A''" "hex_digit 11 = CHR ''B''"
  "hex_digit 12 = CHR ''C''" "hex_digit 13 = CHR ''D''" "hex_digit 14 = CHR ''E''"
  "hex_digit 15 = CHR ''F''"
  by (simp_all add: hex_digit_def)

lemma dec_val_hex_digit:
  "d < 16 \<Longrightarrow> dec_val (hex_digit d) = (if d < 10 then Some (int d) else None)"
  by (drule lt16_cases, elim disjE) (simp_all add: hex_digit_simps dec_val_def)

lemma hex_digit_eq_0: "d < 16 \<Longrightarrow> (hex_digit d = CHR ''0'') = (d = 0)"
  by (drule lt16_cases, elim disjE) (simp_all add: hex_digit_simps)

lemma hex_val_hex_digit: "d < 16 \<Longrightarrow> hex_val (hex_digit d) = Some d"
  by (drule lt16_cases, elim disjE) (simp_all add: hex_digit_simps hex_val_def)

lemma not_space_hex_digit: "d < 16 \<Longrightarrow> \<not> is_space (hex_digit d)"
  by (drule lt16_cases, elim disjE) (simp_all add: hex_digit_simps is_space_def)

section \<open>The BCD decoder computes the decimal value\<close>

lemma concat_byte_hex: "concat (map byte_hex bs) = map hex_digit (bcd_digits bs)"
  by (induction bs) (simp_all add: bcd_digits_def byte_hex_eq)

lemma bcd_digits_lt16: "list_all (\<lambda>d. d < 16) (bcd_digits bs)"
  by (induction bs) (simp_all add: bcd_digits_def hi_nibble_lt lo_nibble_lt)

lemma bcd_ok_digits: "bcd_ok bs = list_all (\<lambda>d. d < 10) (bcd_digits bs)"
  by (induction bs) (simp_all add: bcd_digits_def bcd_ok_def)

lemma lstrip0_hex_digits:
  "list_all (\<lambda>d. d < 16) ds \<Longrightarrow> lstrip0 (map hex_digit ds) = map hex_digit (dropWhile (\<lambda>d. d = 0) ds)"
  by (induction ds) (simp_all add: lstrip0_def hex_digit_eq_0)

lemma parse_decimal_digits:
  "list_all (\<lambda>d. d < 10) ds \<Longrightarrow>
   parse_decimal (int a) (map hex_digit ds) = Some (int (foldl (\<lambda>a d. 10 * a + d) a ds))"
proof (induction ds arbitrary: a)
  case Nil
  then show ?case by simp
next
  case (Cons d ds)
  then have d: "d < 10" and ds: "list_all (\<lambda>d. d < 10) ds" by simp_all
  have "parse_decimal (int a) (map hex_digit (d # ds)) =
        parse_decimal (int (10 * a + d)) (map hex_digit ds)"
    using d by (simp add: dec_val_hex_digit)
  also have "\<dots> = Some (int (foldl (\<lambda>a d. 10 * a + d) (10 * a + d) ds))"
    by (rule Cons.IH [OF ds])
  finally show ?case by simp
qed

lemma parse_decimal_bad:
  "list_all (\<lambda>d. d < 16) ds \<Longrightarrow> \<not> list_all (\<lambda>d. d < 10) ds \<Longrightarrow>
   parse_decimal acc (map hex_digit ds) = None"
  by (induction ds arbitrary: acc) (auto simp: dec_val_hex_digit)

lemma decimal_value_dropWhile:
  "foldl (\<lambda>a d. 10 * a + d) 0 (dropWhile (\<lambda>d. d = 0) ds) = foldl (\<lambda>a d. 10 * a + d) (0::nat) ds"
  by (induction ds) simp_all

lemma list_all_dropWhile: "list_all P ds \<Longrightarrow> list_all P (dropWhile Q ds)"
  by (induction ds) simp_all

lemma not_all_dropWhile_0:
  "\<not> list_all (\<lambda>d. d < 10) ds \<Longrightarrow> \<not> list_all (\<lambda>d. d < (10::nat)) (dropWhile (\<lambda>d. d = 0) ds)"
  by (induction ds) auto

lemma int_of_str_0: "int_of_str ''0'' = Inr 0"
  by (simp add: int_of_str_def dec_val_def)

lemma bcd_to_int_value: "bcd_ok bs \<Longrightarrow> bcd_to_int bs = Inr (bcd_value bs)"
proof -
  assume ok: "bcd_ok bs"
  define ds where "ds = bcd_digits bs"
  define ds' where "ds' = dropWhile (\<lambda>d. d = 0) ds"
  have lt16: "list_all (\<lambda>d. d < 16) ds" by (simp add: ds_def bcd_digits_lt16)
  have lt10: "list_all (\<lambda>d. d < 10) ds" using ok by (simp add: ds_def bcd_ok_digits)
  have lt10': "list_all (\<lambda>d. d < 10) ds'" using lt10 by (simp add: ds'_def list_all_dropWhile)
  have s: "lstrip0 (concat (map byte_hex bs)) = map hex_digit ds'"
    by (simp add: concat_byte_hex ds'_def lstrip0_hex_digits [OF lt16] flip: ds_def)
  have v: "foldl (\<lambda>a d. 10 * a + d) 0 ds' = decimal_value ds"
    by (simp add: ds'_def decimal_value_def decimal_value_dropWhile)
  show ?thesis
  proof (cases "ds' = []")
    case True
    with v have "decimal_value ds = 0" by simp
    with True s show ?thesis
      by (simp add: bcd_to_int_def int_of_str_0 bcd_value_def flip: ds_def)
  next
    case False
    have "parse_decimal 0 (map hex_digit ds') = Some (int (decimal_value ds))"
      using parse_decimal_digits [OF lt10', of 0] v by simp
    with False s show ?thesis
      by (simp add: bcd_to_int_def int_of_str_def bcd_value_def flip: ds_def)
  qed
qed

lemma bcd_to_int_bad: "\<not> bcd_ok bs \<Longrightarrow> bcd_to_int bs = Inl ValueError"
proof -
  assume bad: "\<not> bcd_ok bs"
  define ds where "ds = bcd_digits bs"
  define ds' where "ds' = dropWhile (\<lambda>d. d = 0) ds"
  have lt16: "list_all (\<lambda>d. d < 16) ds" by (simp add: ds_def bcd_digits_lt16)
  have lt16': "list_all (\<lambda>d. d < 16) ds'" using lt16 by (simp add: ds'_def list_all_dropWhile)
  have nlt10: "\<not> list_all (\<lambda>d. d < 10) ds'"
    using bad by (simp add: ds'_def ds_def bcd_ok_digits not_all_dropWhile_0)
  then have ne: "ds' \<noteq> []" by auto
  have s: "lstrip0 (concat (map byte_hex bs)) = map hex_digit ds'"
    by (simp add: concat_byte_hex ds'_def lstrip0_hex_digits [OF lt16] flip: ds_def)
  have "parse_decimal 0 (map hex_digit ds') = None"
    by (rule parse_decimal_bad [OF lt16' nlt10])
  with ne s show ?thesis
    by (simp add: bcd_to_int_def int_of_str_def)
qed

lemma bcd_to_int_cases:
  "bcd_to_int bs = (if bcd_ok bs then Inr (bcd_value bs) else Inl ValueError)"
  by (simp add: bcd_to_int_value bcd_to_int_bad)

section \<open>The field decoders\<close>

lemma slice_nat: "py_slice (int a) (int b) xs = take (b - a) (drop a xs)"
proof (cases "b \<le> length xs")
  case True
  then show ?thesis by (simp add: py_slice_def clamp_index_def Let_def min_def)
next
  case False
  then show ?thesis by (auto simp: py_slice_def clamp_index_def Let_def min_def)
qed

lemma slice_0_2: "py_slice 0 2 p = take 2 p"
  using slice_nat [of 0 2 p] by simp

lemma slice_2_4: "py_slice 2 4 p = take 2 (drop 2 p)"
  using slice_nat [of 2 4 p] by simp

lemma slice_4_7: "py_slice 4 7 p = take 3 (drop 4 p)"
  using slice_nat [of 4 7 p] by simp

lemma slice_0_4: "py_slice 0 4 p = take 4 p"
  using slice_nat [of 0 4 p] by simp

lemma slice_4_8: "py_slice 4 8 p = take 4 (drop 4 p)"
  using slice_nat [of 4 8 p] by simp

lemma bcd_ok_append: "bcd_ok (xs @ ys) = (bcd_ok xs \<and> bcd_ok ys)"
  by (simp add: bcd_ok_def)

lemma bcd_ok_take: "bcd_ok p \<Longrightarrow> bcd_ok (take n p)"
  by (metis append_take_drop_id bcd_ok_append)

lemma bcd_ok_drop: "bcd_ok p \<Longrightarrow> bcd_ok (drop n p)"
  by (metis append_take_drop_id bcd_ok_append)

lemma take7_split: "take 7 p = take 2 p @ take 2 (drop 2 p) @ take 3 (drop 4 p)"
proof -
  have "take 7 p = take 2 p @ take 5 (drop 2 p)"
    using take_add [of 2 5 p] by simp
  also have "take 5 (drop 2 p) = take 2 (drop 2 p) @ take 3 (drop 4 p)"
    using take_add [of 2 3 "drop 2 p"] by simp
  finally show ?thesis .
qed

lemma take8_split: "take 8 p = take 4 p @ take 4 (drop 4 p)"
  using take_add [of 4 4 p] by simp

lemma parse_63_cases:
  "parse_63 p =
     (if bcd_ok (take 7 p)
      then Inr (real_of_int (bcd_value (take 2 p)) / 10,
                real_of_int (bcd_value (take 2 (drop 2 p))) / 100,
                bcd_value (take 3 (drop 4 p)))
      else Inl ValueError)"
  by (simp add: parse_63_def slice_0_2 slice_2_4 slice_4_7 bcd_to_int_cases take7_split
      bcd_ok_append)

lemma parse_27_cases:
  "parse_27 p =
     (if bcd_ok (take 8 p)
      then Inr (real_of_int (bcd_value (take 4 p)) / 100,
                real_of_int (bcd_value (take 4 (drop 4 p))) / 100)
      else Inl ValueError)"
  by (simp add: parse_27_def slice_0_4 slice_4_8 bcd_to_int_cases take8_split bcd_ok_append)

lemma take2_nth: "2 \<le> length p \<Longrightarrow> take 2 p = [p ! 0, p ! 1]"
  by (cases p; cases "tl p") auto

lemma take3_nth: "3 \<le> length p \<Longrightarrow> take 3 p = [p ! 0, p ! 1, p ! 2]"
  by (cases p; cases "tl p"; cases "tl (tl p)") (auto simp: numeral_3_eq_3 numeral_2_eq_2)

lemma take4_nth: "4 \<le> length p \<Longrightarrow> take 4 p = [p ! 0, p ! 1, p ! 2, p ! 3]"
  by (cases p; cases "tl p"; cases "tl (tl p)"; cases "tl (tl (tl p))")
     (auto simp: numeral_3_eq_3 numeral_2_eq_2 eval_nat_numeral)

lemma bcd_vals:
  "bcd_value [] = 0"
  "bcd_ok []"
  by (simp_all add: bcd_value_def bcd_ok_def bcd_digits_def decimal_value_def)

section \<open>Checksum round trip and decoding\<close>

lemmas bcd_eval = bcd_ok_def bcd_value_def bcd_digits_def decimal_value_def hi_nibble_def
  lo_nibble_def

lemma bcd_zeros: "bcd_ok (replicate n 0) \<and> bcd_value (replicate n 0) = 0"
  by (induction n) (simp_all add: bcd_eval)

text \<open>
  Claim C2. For every byte sequence \<open>b\<close>, the frame \<open>b + crc16_modbus(b)\<close> passes the
  validation of a response: the checksum recomputed over all bytes but the last two equals
  the last two bytes. This holds for the request built for serial 548973 and command
  \<open>63\<close>, whose bytes are \<open>00 08 60 6D 63 4A C7\<close>.
\<close>

theorem frame_with_crc_validates:
  "(\<exists>c. crc16_modbus b = Inr c
        \<and> crc16_modbus (slice_to (- 2) (b @ c)) = Inr (slice_from (- 2) (b @ c))
        \<and> bad_response (Some (b @ c)) = Inr False)
   \<and> int_of_str ''548973'' = Inr 548973
   \<and> build_frame (fmt_08X 548973) ''63'' = Inr [0x00, 0x08, 0x60, 0x6D, 0x63, 0x4A, 0xC7]
   \<and> bad_response (Some [0x00, 0x08, 0x60, 0x6D, 0x63, 0x4A, 0xC7]) = Inr False"
proof -
  obtain c where c: "crc16_modbus b = Inr c"
    using crc16_modbus_refines [of b] by blast
  have len: "length c = 2" by (rule crc16_modbus_length [OF c])
  have 1: "crc16_modbus (slice_to (- 2) (b @ c)) = Inr (slice_from (- 2) (b @ c))"
    by (simp add: slice_to_append2 [OF len] slice_from_append2 [OF len] c)
  have 2: "bad_response (Some (b @ c)) = Inr False"
    by (rule bad_response_append_crc [OF c])
  have crc: "crc16_modbus [0x00, 0x08, 0x60, 0x6D, 0x63] = Inr [0x4A, 0xC7]"
    by code_simp
  have 3: "bad_response (Some [0x00, 0x08, 0x60, 0x6D, 0x63, 0x4A, 0xC7]) = Inr False"
    using bad_response_append_crc [OF crc] by simp
  from c 1 2 3 show ?thesis
    by (simp add: int_of_str_548973 fmt_08X_548973 build_frame_548973_63)
qed

text \<open>
  Claim C3. For every byte sequence whose nibbles are all at most 9, \<open>bcd_to_int\<close> returns
  the number whose decimal digits are the high and the low nibble of each byte, in input
  order. The bytes \<open>12 34\<close> give 1234, the bytes \<open>00 00 07\<close> give 7, and a sequence of
  zero bytes of any length gives 0.
\<close>

theorem bcd_to_int_decimal_digits:
  "(bcd_ok bs \<longrightarrow> bcd_to_int bs = Inr (bcd_value bs))
   \<and> bcd_to_int [0x12, 0x34] = Inr 1234
   \<and> bcd_to_int [0x00, 0x00, 0x07] = Inr 7
   \<and> bcd_to_int (replicate n 0) = Inr 0"
proof -
  have "bcd_to_int [0x12, 0x34] = Inr 1234" "bcd_to_int [0x00, 0x00, 0x07] = Inr 7"
    by (simp_all add: bcd_to_int_cases bcd_eval)
  moreover have "bcd_to_int (replicate n 0) = Inr 0"
    using bcd_zeros [of n] by (simp add: bcd_to_int_cases)
  ultimately show ?thesis by (simp add: bcd_to_int_cases)
qed

theorem bcd_to_int_decimal_digits_witness:
  "bcd_ok [0x09, 0x87, 0x65] \<and> bcd_to_int [0x09, 0x87, 0x65] = Inr 98765"
  using bcd_to_int_decimal_digits [of "[0x09, 0x87, 0x65]" 0] by (simp add: bcd_eval)

text \<open>
  Claim C4. On a payload of at least 7 bytes the primary decoder reads bytes 0-1 as BCD
  and divides by 10, bytes 2-3 as BCD and divides by 100, and bytes 4-6 as BCD, unscaled;
  on a payload of at least 8 bytes the secondary decoder reads bytes 0-3 and bytes 4-7 as
  BCD and divides each by 100. (Where one of the bytes read has a nibble above 9 the BCD
  value does not exist and the decoder raises \<open>ValueError\<close>.) The payload
  \<open>02 30 01 00 00 05 00\<close> gives 23.0, 1.00 and 500; the payload
  \<open>00 01 23 45 00 06 78 90\<close> gives 123.45 and 678.90.
\<close>

theorem field_decoders_layout:
  "(7 \<le> length p \<longrightarrow>
      parse_63 p =
        (if bcd_ok (take 7 p)
         then Inr (real_of_int (bcd_value [p ! 0, p ! 1]) / 10,
                   real_of_int (bcd_value [p ! 2, p ! 3]) / 100,
                   bcd_value [p ! 4, p ! 5, p ! 6])
         else Inl ValueError))
   \<and> (8 \<le> length q \<longrightarrow>
      parse_27 q =
        (if bcd_ok (take 8 q)
         then Inr (real_of_int (bcd_value [q ! 0, q ! 1, q ! 2, q ! 3]) / 100,
                   real_of_int (bcd_value [q ! 4, q ! 5, q ! 6, q ! 7]) / 100)
         else Inl ValueError))
   \<and> parse_63 [0x02, 0x30, 0x01, 0x00, 0x00, 0x05, 0x00] = Inr (23, 1, 500)
   \<and> parse_27 [0x00, 0x01, 0x23, 0x45, 0x00, 0x06, 0x78, 0x90] = Inr (123.45, 678.90)"
proof -
  have a: "parse_63 p =
        (if bcd_ok (take 7 p)
         then Inr (real_of_int (bcd_value [p ! 0, p ! 1]) / 10,
                   real_of_int (bcd_value [p ! 2, p ! 3]) / 100,
                   bcd_value [p ! 4, p ! 5, p ! 6])
         else Inl ValueError)" if "7 \<le> length p"
  proof -
    have "take 2 p = [p ! 0, p ! 1]" using that by (simp add: take2_nth)
    moreover have "take 2 (drop 2 p) = [p ! 2, p ! 3]"
      using that take2_nth [of "drop 2 p"] by simp
    moreover have "take 3 (drop 4 p) = [p ! 4, p ! 5, p ! 6]"
      using that take3_nth [of "drop 4 p"] by simp
    ultimately show ?thesis by (simp add: parse_63_cases)
  qed
  have b: "parse_27 q =
        (if bcd_ok (take 8 q)
         then Inr (real_of_int (bcd_value [q ! 0, q ! 1, q ! 2, q ! 3]) / 100,
                   real_of_int (bcd_value [q ! 4, q ! 5, q ! 6, q ! 7]) / 100)
         else Inl ValueError)" if "8 \<le> length q"
  proof -
    have "take 4 q = [q ! 0, q ! 1, q ! 2, q ! 3]" using that by (simp add: take4_nth)
    moreover have "take 4 (drop 4 q) = [q ! 4, q ! 5, q ! 6, q ! 7]"
      using that take4_nth [of "drop 4 q"] by simp
    ultimately show ?thesis by (simp add: parse_27_cases)
  qed
  have c: "parse_63 [0x02, 0x30, 0x01, 0x00, 0x00, 0x05, 0x00] = Inr (23, 1, 500)"
    by (simp add: parse_63_cases bcd_eval)
  have d: "parse_27 [0x00, 0x01, 0x23, 0x45, 0x00, 0x06, 0x78, 0x90] = Inr (123.45, 678.90)"
    by (simp add: parse_27_cases bcd_eval)
  from a b c d show ?thesis by blast
qed

theorem field_decoders_layout_witness:
  "7 \<le> length [0x22 :: byte, 0x05, 0x03, 0x50, 0x01, 0x23, 0x45]
   \<and> parse_63 [0x22, 0x05, 0x03, 0x50, 0x01, 0x23, 0x45] = Inr (220.5, 3.5, 12345)
   \<and> 8 \<le> length [0x00 :: byte, 0x09, 0x87, 0x65, 0x00, 0x00, 0x43, 0x21]
   \<and> parse_27 [0x00, 0x09, 0x87, 0x65, 0x00, 0x00, 0x43, 0x21] = Inr (987.65, 43.21)"
  using field_decoders_layout [of "[0x22, 0x05, 0x03, 0x50, 0x01, 0x23, 0x45]"
      "[0x00, 0x09, 0x87, 0x65, 0x00, 0x00, 0x43, 0x21]"]
  by (simp add: bcd_eval)

text \<open>
  Claim C10. \<open>bcd_to_int\<close> of the empty byte sequence is 0, and the two decoders raise
  nothing on a well-formed payload of any length, however short: each field is the
  decimal value of those of its bytes that are present, and a field none of whose bytes
  is present is 0.
\<close>

theorem decoders_total_on_short_payloads:
  "bcd_to_int [] = Inr 0
   \<and> bcd_value [] = 0
   \<and> (bcd_ok p \<longrightarrow>
        parse_63 p = Inr (real_of_int (bcd_value (take 2 p)) / 10,
                          real_of_int (bcd_value (take 2 (drop 2 p))) / 100,
                          bcd_value (take 3 (drop 4 p))))
   \<and> (bcd_ok p \<longrightarrow>
        parse_27 p = Inr (real_of_int (bcd_value (take 4 p)) / 100,
                          real_of_int (bcd_value (take 4 (drop 4 p))) / 100))
   \<and> parse_63 [] = Inr (0, 0, 0)
   \<and> parse_27 [] = Inr (0, 0)"
proof -
  have "bcd_to_int [] = Inr 0" by (simp add: bcd_to_int_cases bcd_vals)
  moreover have "parse_63 [] = Inr (0, 0, 0)" "parse_27 [] = Inr (0, 0)"
    by (simp_all add: parse_63_cases parse_27_cases bcd_vals)
  ultimately show ?thesis
    by (simp add: parse_63_cases parse_27_cases bcd_vals bcd_ok_take)
qed

theorem decoders_total_on_short_payloads_witness:
  "bcd_ok [0x02, 0x30, 0x01]
   \<and> parse_63 [0x02, 0x30, 0x01] = Inr (23, 1 / 100, 0)
   \<and> parse_27 [0x02, 0x30, 0x01] = Inr (23001 / 100, 0)"
  using decoders_total_on_short_payloads [of "[0x02, 0x30, 0x01]"]
  by (simp add: bcd_eval)

section \<open>The receive loop\<close>

lemma recv_loop_unfold:
  "recv_loop deadline resp w =
     (if clock w (n_time w) < deadline then
        (case recv_res w (n_recv w) of
           RecvError \<Rightarrow> Inl OSError
         | RecvTimeout \<Rightarrow> Inr (None, w\<lparr>n_time := Suc (n_time w), n_recv := Suc (n_recv w)\<rparr>)
         | Chunk chunk \<Rightarrow>
             if chunk = [] then
               Inr (None, w\<lparr>n_time := Suc (n_time w), n_recv := Suc (n_recv w)\<rparr>)
             else if 6 \<le> length (resp @ chunk) then
               Inr (Some (resp @ chunk), w\<lparr>n_time := Suc (n_time w), n_recv := Suc (n_recv w)\<rparr>)
             else recv_loop deadline (resp @ chunk)
                    (w\<lparr>n_time := Suc (n_time w), n_recv := Suc (n_recv w)\<rparr>))
      else Inr (None, w\<lparr>n_time := Suc (n_time w)\<rparr>))"
  by (subst recv_loop.simps)
     (simp add: time_time_def sock_recv_def split: recv_result.split)

lemma attempts_unfold:
  "attempts tmo frame (Suc n) w =
     (if send_ok w (length (sent w)) then
        (case recv_loop (clock w (n_time w) + tmo) []
                (w\<lparr>sent := sent w @ [frame], n_time := Suc (n_time w)\<rparr>) of
           Inl e \<Rightarrow> Inl e
         | Inr (Some resp, w3) \<Rightarrow> Inr (Some resp, w3)
         | Inr (None, w3) \<Rightarrow> attempts tmo frame n w3)
      else Inr (None, w\<lparr>sent := sent w @ [frame]\<rparr>))"
  by (simp add: sock_sendall_def time_time_def)

text \<open>A simpler induction rule for the receive loop.\<close>

lemma recv_loop_induct [case_names step]:
  fixes P :: "real \<Rightarrow> byte list \<Rightarrow> world \<Rightarrow> bool"
  assumes "\<And>d resp w.
     (\<And>c. clock w (n_time w) < d \<Longrightarrow> recv_res w (n_recv w) = Chunk c \<Longrightarrow> c \<noteq> [] \<Longrightarrow>
           \<not> 6 \<le> length (resp @ c) \<Longrightarrow>
           P d (resp @ c) (w\<lparr>n_time := Suc (n_time w), n_recv := Suc (n_recv w)\<rparr>))
     \<Longrightarrow> P d resp w"
  shows "P d resp w"
proof (induction d resp w rule: recv_loop.induct)
  case (1 deadline resp w)
  show ?case
  proof (rule assms)
    fix c
    assume "clock w (n_time w) < deadline" "recv_res w (n_recv w) = Chunk c" "c \<noteq> []"
      "\<not> 6 \<le> length (resp @ c)"
    then show "P deadline (resp @ c) (w\<lparr>n_time := Suc (n_time w), n_recv := Suc (n_recv w)\<rparr>)"
      using "1" [of "clock w (n_time w)" "w\<lparr>n_time := Suc (n_time w)\<rparr>" "Chunk c"
          "w\<lparr>n_time := Suc (n_time w), n_recv := Suc (n_recv w)\<rparr>" c]
      by (simp add: time_time_def sock_recv_def)
  qed
qed

lemma recv_loop_frame:
  "recv_loop d resp w = Inr (r, w') \<Longrightarrow>
   send_ok w' = send_ok w \<and> clock w' = clock w \<and> recv_res w' = recv_res w \<and> sent w' = sent w
   \<and> n_time w < n_time w' \<and> n_recv w \<le> n_recv w'"
proof (induction d resp w rule: recv_loop_induct)
  case (step d resp w)
  from step.prems step.IH show ?case
    by (subst (asm) recv_loop_unfold) (fastforce split: if_splits recv_result.splits)
qed

lemma recv_loop_no_error:
  "\<forall>k. recv_res w k \<noteq> RecvError \<Longrightarrow> \<exists>r w'. recv_loop d resp w = Inr (r, w')"
proof (induction d resp w rule: recv_loop_induct)
  case (step d resp w)
  show ?case
  proof (cases "recv_res w (n_recv w)")
    case (Chunk c)
    show ?thesis
    proof (cases "clock w (n_time w) < d \<and> c \<noteq> [] \<and> \<not> 6 \<le> length (resp @ c)")
      case True
      then have "\<exists>r w'. recv_loop d (resp @ c)
          (w\<lparr>n_time := Suc (n_time w), n_recv := Suc (n_recv w)\<rparr>) = Inr (r, w')"
        using step.IH [of c] Chunk step.prems by simp
      with True Chunk show ?thesis by (subst recv_loop_unfold) simp
    next
      case False
      with Chunk show ?thesis by (subst recv_loop_unfold) auto
    qed
  next
    case RecvTimeout
    then show ?thesis by (subst recv_loop_unfold) simp
  next
    case RecvError
    with step.prems show ?thesis by simp
  qed
qed

lemma received_0: "received w i 0 = []"
  by (simp add: received_def)

lemma received_Suc_front:
  "received w i (Suc k) = chunk_bytes (recv_res w i) @ received w (Suc i) k"
  by (simp add: received_def upt_conv_Cons del: upt_Suc)

lemma received_script:
  "recv_res w' = recv_res w \<Longrightarrow> received w' i k = received w i k"
  by (simp add: received_def)

lemma recv_loop_Some:
  "recv_loop d resp w = Inr (Some r, w') \<Longrightarrow>
   \<exists>k. n_recv w' = n_recv w + Suc k \<and> n_time w' = n_time w + Suc k
      \<and> r = resp @ received w (n_recv w) (Suc k)
      \<and> (length resp < 6 \<longrightarrow> length (resp @ received w (n_recv w) k) < 6)
      \<and> 6 \<le> length r"
proof (induction d resp w rule: recv_loop_induct)
  case (step d resp w)
  let ?w1 = "w\<lparr>n_time := Suc (n_time w), n_recv := Suc (n_recv w)\<rparr>"
  from step.prems have t: "clock w (n_time w) < d"
    by (subst (asm) recv_loop_unfold) (simp split: if_splits)
  with step.prems obtain c where c: "recv_res w (n_recv w) = Chunk c" "c \<noteq> []"
    by (subst (asm) recv_loop_unfold) (auto split: if_splits recv_result.splits)
  show ?case
  proof (cases "6 \<le> length (resp @ c)")
    case True
    with step.prems t c have "r = resp @ c" "w' = ?w1"
      by (subst (asm) recv_loop_unfold, simp)+
    with True c show ?thesis
      by (intro exI [of _ 0]) (simp add: received_Suc_front received_0 chunk_bytes_def)
  next
    case False
    with step.prems t c have "recv_loop d (resp @ c) ?w1 = Inr (Some r, w')"
      by (subst (asm) recv_loop_unfold) simp
    from step.IH [OF t c(1) c(2) False this] obtain k where k:
      "n_recv w' = n_recv ?w1 + Suc k" "n_time w' = n_time ?w1 + Suc k"
      "r = (resp @ c) @ received ?w1 (n_recv ?w1) (Suc k)"
      "length (resp @ c) < 6 \<longrightarrow> length ((resp @ c) @ received ?w1 (n_recv ?w1) k) < 6"
      "6 \<le> length r"
      by blast
    have rs: "received ?w1 i j = received w i j" for i j
      by (rule received_script) simp
    from k False c show ?thesis
      by (intro exI [of _ "Suc k"])
         (simp add: rs received_Suc_front [of w "n_recv w"] chunk_bytes_def)
  qed
qed

section \<open>The retry loop\<close>

lemma recv_loop_returns:
  assumes "\<forall>j\<le>k. clock w (n_time w + j) < d"
    and "\<forall>j\<le>k. \<exists>c. recv_res w (n_recv w + j) = Chunk c \<and> c \<noteq> []"
    and "length (resp @ received w (n_recv w) k) < 6"
    and "6 \<le> length (resp @ received w (n_recv w) (Suc k))"
  shows "recv_loop d resp w =
     Inr (Some (resp @ received w (n_recv w) (Suc k)),
          w\<lparr>n_time := n_time w + Suc k, n_recv := n_recv w + Suc k\<rparr>)"
  using assms
proof (induction k arbitrary: resp w)
  case 0
  then obtain c where c: "recv_res w (n_recv w) = Chunk c" "c \<noteq> []" by auto
  from 0 have t: "clock w (n_time w) < d" by simp
  from 0 c t show ?case
    by (subst recv_loop_unfold) (simp add: received_Suc_front received_0 chunk_bytes_def)
next
  case (Suc k)
  let ?w1 = "w\<lparr>n_time := Suc (n_time w), n_recv := Suc (n_recv w)\<rparr>"
  from Suc.prems(2) obtain c where c: "recv_res w (n_recv w) = Chunk c" "c \<noteq> []"
    by (metis add.right_neutral le0)
  from Suc.prems(1) have t: "clock w (n_time w) < d"
    by (metis add.right_neutral le0)
  have rs: "received ?w1 i j = received w i j" for i j
    by (rule received_script) simp
  have fr: "received w (n_recv w) (Suc j) = c @ received w (Suc (n_recv w)) j" for j
    using c by (simp add: received_Suc_front chunk_bytes_def)
  from Suc.prems(3) have short: "\<not> 6 \<le> length (resp @ c)"
    by (simp add: fr)
  have 1: "\<forall>j\<le>k. clock ?w1 (n_time ?w1 + j) < d"
    using Suc.prems(1) by (auto dest: spec [of _ "Suc j" for j])
  have 2: "\<forall>j\<le>k. \<exists>c. recv_res ?w1 (n_recv ?w1 + j) = Chunk c \<and> c \<noteq> []"
    using Suc.prems(2) by (auto dest: spec [of _ "Suc j" for j])
  have 3: "length ((resp @ c) @ received ?w1 (n_recv ?w1) k) < 6"
    using Suc.prems(3) by (simp add: rs fr)
  have 4: "6 \<le> length ((resp @ c) @ received ?w1 (n_recv ?w1) (Suc k))"
    using Suc.prems(4) by (simp add: rs fr [of "Suc k"])
  have "recv_loop d resp w = recv_loop d (resp @ c) ?w1"
    using c t short by (subst recv_loop_unfold) simp
  also have "\<dots> = Inr (Some ((resp @ c) @ received ?w1 (n_recv ?w1) (Suc k)),
          ?w1\<lparr>n_time := n_time ?w1 + Suc k, n_recv := n_recv ?w1 + Suc k\<rparr>)"
    by (rule Suc.IH [OF 1 2 3 4])
  finally show ?case
    by (simp add: rs fr [of "Suc k"])
qed

lemma attempts_frame:
  "attempts tmo f n w = Inr (r, w') \<Longrightarrow>
   send_ok w' = send_ok w \<and> clock w' = clock w \<and> recv_res w' = recv_res w
   \<and> n_time w \<le> n_time w' \<and> n_recv w \<le> n_recv w'
   \<and> (\<exists>k\<le>n. sent w' = sent w @ replicate k f)"
proof (induction n arbitrary: w)
  case 0
  then show ?case by simp
next
  case (Suc n)
  let ?w1 = "w\<lparr>sent := sent w @ [f], n_time := Suc (n_time w)\<rparr>"
  show ?case
  proof (cases "send_ok w (length (sent w))")
    case False
    with Suc.prems have "w' = w\<lparr>sent := sent w @ [f]\<rparr>"
      by (simp add: attempts_unfold del: attempts.simps)
    then show ?thesis by (auto intro: exI [of _ 1])
  next
    case True
    with Suc.prems obtain r3 w3 where
      l: "recv_loop (clock w (n_time w) + tmo) [] ?w1 = Inr (r3, w3)"
      by (auto simp: attempts_unfold simp del: attempts.simps split: sum.splits)
    note fr = recv_loop_frame [OF l]
    show ?thesis
    proof (cases r3)
      case None
      with Suc.prems True l have "attempts tmo f n w3 = Inr (r, w')"
        by (simp add: attempts_unfold del: attempts.simps)
      from Suc.IH [OF this] obtain k where
        "k \<le> n" "sent w' = sent w3 @ replicate k f"
        and rest: "send_ok w' = send_ok w3" "clock w' = clock w3" "recv_res w' = recv_res w3"
          "n_time w3 \<le> n_time w'" "n_recv w3 \<le> n_recv w'"
        by blast
      then have "Suc k \<le> Suc n" "sent w' = sent w @ replicate (Suc k) f"
        using fr by (simp_all add: replicate_app_Cons_same)
      with rest fr show ?thesis by (auto simp del: replicate_Suc)
    next
      case (Some x)
      with Suc.prems True l have "w' = w3"
        by (simp add: attempts_unfold del: attempts.simps)
      with fr show ?thesis by (auto intro: exI [of _ 1])
    qed
  qed
qed

lemma attempts_no_error:
  "\<forall>k. recv_res w k \<noteq> RecvError \<Longrightarrow> \<exists>r w'. attempts tmo f n w = Inr (r, w')"
proof (induction n arbitrary: w)
  case 0
  then show ?case by simp
next
  case (Suc n)
  let ?w1 = "w\<lparr>sent := sent w @ [f], n_time := Suc (n_time w)\<rparr>"
  from Suc.prems have "\<forall>k. recv_res ?w1 k \<noteq> RecvError" by simp
  from recv_loop_no_error [OF this] obtain r3 w3 where
    l: "recv_loop (clock w (n_time w) + tmo) [] ?w1 = Inr (r3, w3)" by blast
  from recv_loop_frame [OF l] Suc.prems have "\<forall>k. recv_res w3 k \<noteq> RecvError" by simp
  from Suc.IH [OF this] obtain r w' where "attempts tmo f n w3 = Inr (r, w')" by blast
  with l show ?case
    by (cases r3) (simp_all add: attempts_unfold del: attempts.simps)
qed

lemma attempts_None_all_sent:
  "attempts tmo f n w = Inr (None, w') \<Longrightarrow> \<forall>k. send_ok w k \<Longrightarrow>
   sent w' = sent w @ replicate n f"
proof (induction n arbitrary: w)
  case 0
  then show ?case by simp
next
  case (Suc n)
  let ?w1 = "w\<lparr>sent := sent w @ [f], n_time := Suc (n_time w)\<rparr>"
  from Suc.prems obtain w3 where
    l: "recv_loop (clock w (n_time w) + tmo) [] ?w1 = Inr (None, w3)"
    and a: "attempts tmo f n w3 = Inr (None, w')"
    by (auto simp: attempts_unfold simp del: attempts.simps split: sum.splits option.splits)
  from recv_loop_frame [OF l] Suc.prems(2) have "\<forall>k. send_ok w3 k" "sent w3 = sent w @ [f]"
    by simp_all
  with Suc.IH [OF a] show ?case by (simp add: replicate_app_Cons_same)
qed

lemma attempts_Some:
  "attempts tmo f n w = Inr (Some x, w') \<Longrightarrow>
   6 \<le> length x \<and> (\<exists>m<n. sent w' = sent w @ replicate (Suc m) f)"
proof (induction n arbitrary: w)
  case 0
  then show ?case by simp
next
  case (Suc n)
  let ?w1 = "w\<lparr>sent := sent w @ [f], n_time := Suc (n_time w)\<rparr>"
  from Suc.prems have ok: "send_ok w (length (sent w))"
    by (auto simp: attempts_unfold simp del: attempts.simps split: if_splits)
  with Suc.prems obtain r3 w3 where
    l: "recv_loop (clock w (n_time w) + tmo) [] ?w1 = Inr (r3, w3)"
    by (auto simp: attempts_unfold simp del: attempts.simps split: sum.splits)
  note fr = recv_loop_frame [OF l]
  show ?case
  proof (cases r3)
    case None
    with Suc.prems ok l have "attempts tmo f n w3 = Inr (Some x, w')"
      by (simp add: attempts_unfold del: attempts.simps)
    from Suc.IH [OF this] obtain m where "6 \<le> length x" "m < n"
      "sent w' = sent w3 @ replicate (Suc m) f" by blast
    then have "6 \<le> length x" "Suc m < Suc n" "sent w' = sent w @ replicate (Suc (Suc m)) f"
      using fr by (simp_all add: replicate_app_Cons_same)
    then show ?thesis by blast
  next
    case (Some y)
    with Suc.prems ok l have "x = y" "w' = w3"
      by (simp_all add: attempts_unfold del: attempts.simps)
    moreover from l Some have "6 \<le> length y"
      using recv_loop_Some [of _ "[]" ?w1 y w3] by auto
    ultimately show ?thesis using fr by (auto intro: exI [of _ 0])
  qed
qed

lemma attempts_send_fails:
  "\<not> send_ok w (length (sent w)) \<Longrightarrow>
   attempts tmo f (Suc n) w = Inr (None, w\<lparr>sent := sent w @ [f]\<rparr>)"
  by (simp add: attempts_unfold del: attempts.simps)

section \<open>Silent transports, serial numbers and request frames\<close>

lemma recv_loop_silent:
  "recv_res w (n_recv w) = RecvTimeout \<or> recv_res w (n_recv w) = Chunk [] \<Longrightarrow>
   \<exists>w'. recv_loop d resp w = Inr (None, w')"
  by (subst recv_loop_unfold) auto

lemma attempts_silent:
  "\<forall>k. send_ok w k \<Longrightarrow> \<forall>k. recv_res w k = RecvTimeout \<or> recv_res w k = Chunk [] \<Longrightarrow>
   \<exists>w'. attempts tmo f n w = Inr (None, w') \<and> sent w' = sent w @ replicate n f"
proof (induction n arbitrary: w)
  case 0
  then show ?case by simp
next
  case (Suc n)
  let ?w1 = "w\<lparr>sent := sent w @ [f], n_time := Suc (n_time w)\<rparr>"
  have "recv_res ?w1 (n_recv ?w1) = RecvTimeout \<or> recv_res ?w1 (n_recv ?w1) = Chunk []"
    using Suc.prems(2) by simp
  from recv_loop_silent [OF this] obtain w3 where
    l: "recv_loop (clock w (n_time w) + tmo) [] ?w1 = Inr (None, w3)" by blast
  note fr = recv_loop_frame [OF l]
  from fr Suc.prems have "\<forall>k. send_ok w3 k"
    "\<forall>k. recv_res w3 k = RecvTimeout \<or> recv_res w3 k = Chunk []" by simp_all
  from Suc.IH [OF this] obtain w' where
    "attempts tmo f n w3 = Inr (None, w')" "sent w' = sent w3 @ replicate n f" by blast
  with l fr Suc.prems(1) show ?case
    by (simp add: attempts_unfold replicate_app_Cons_same del: attempts.simps)
qed

lemma dec_val_range: "dec_val c = Some d \<Longrightarrow> 0 \<le> d \<and> d \<le> 9"
  by (auto simp: dec_val_def split: if_splits)

lemma parse_decimal_bounds:
  "list_all (\<lambda>c. dec_val c \<noteq> None) s \<Longrightarrow> 0 \<le> acc \<Longrightarrow>
   \<exists>v. parse_decimal acc s = Some v \<and> acc * 10 ^ length s \<le> v \<and> v < (acc + 1) * 10 ^ length s"
proof (induction s arbitrary: acc)
  case Nil
  then show ?case by simp
next
  case (Cons c s)
  then obtain d where d: "dec_val c = Some d" by auto
  then have r: "0 \<le> d" "d \<le> 9" using dec_val_range by blast+
  from Cons.prems have all: "list_all (\<lambda>c. dec_val c \<noteq> None) s" by simp
  from r Cons.prems(2) have nn: "0 \<le> 10 * acc + d" by simp
  from Cons.IH [OF all nn] obtain v where v: "parse_decimal (10 * acc + d) s = Some v"
    "(10 * acc + d) * 10 ^ length s \<le> v" "v < (10 * acc + d + 1) * 10 ^ length s"
    by blast
  define P :: int where "P = 10 ^ length s"
  have P: "0 \<le> P" by (simp add: P_def)
  have "acc * 10 ^ length (c # s) = (acc * 10) * P" by (simp add: P_def)
  also have "\<dots> \<le> (10 * acc + d) * P"
    using r P by (intro mult_right_mono) simp_all
  also have "\<dots> \<le> v" using v(2) by (simp add: P_def)
  finally have lo: "acc * 10 ^ length (c # s) \<le> v" .
  have "v < (10 * acc + d + 1) * P" using v(3) by (simp add: P_def)
  also have "\<dots> \<le> ((acc + 1) * 10) * P"
    using r P by (intro mult_right_mono) simp_all
  also have "\<dots> = (acc + 1) * 10 ^ length (c # s)" by (simp add: P_def)
  finally have hi: "v < (acc + 1) * 10 ^ length (c # s)" .
  from v(1) d lo hi show ?case by simp
qed

lemma is_serial_int:
  "is_serial s \<Longrightarrow> \<exists>n. int_of_str s = Inr n \<and> 0 \<le> n \<and> n < 1000000"
proof -
  assume s: "is_serial s"
  then have len: "length s = 6" and all: "list_all (\<lambda>c. dec_val c \<noteq> None) s"
    by (simp_all add: is_serial_def)
  from parse_decimal_bounds [OF all, of 0] len obtain v where
    "parse_decimal 0 s = Some v" "0 \<le> v" "v < 1000000" by auto
  moreover from len have "s \<noteq> []" by auto
  ultimately show ?thesis by (simp add: int_of_str_def)
qed

lemma hex_digits_shape:
  "\<exists>ds. hex_digits n = map hex_digit ds \<and> list_all (\<lambda>d. d < 16) ds \<and> ds \<noteq> []
        \<and> (\<forall>k. n < 16 ^ Suc k \<longrightarrow> length ds \<le> Suc k)"
proof (induction n rule: hex_digits.induct)
  case (1 n)
  show ?case
  proof (cases "n < 16")
    case True
    then show ?thesis
      by (intro exI [of _ "[n]"]) (simp add: hex_digits_small)
  next
    case False
    from "1" [OF False] obtain ds where ds: "hex_digits (n div 16) = map hex_digit ds"
      "list_all (\<lambda>d. d < 16) ds" "ds \<noteq> []"
      "\<forall>k. n div 16 < 16 ^ Suc k \<longrightarrow> length ds \<le> Suc k" by blast
    have "length (ds @ [n mod 16]) \<le> Suc k" if "n < 16 ^ Suc k" for k
    proof (cases k)
      case 0
      with that False show ?thesis by simp
    next
      case (Suc j)
      with that have "n div 16 < 16 ^ Suc j"
        by (simp add: less_mult_imp_div_less mult.commute)
      with ds(4) Suc show ?thesis by simp
    qed
    with ds False show ?thesis
      by (intro exI [of _ "ds @ [n mod 16]"]) (subst hex_digits.simps, simp)
  qed
qed

lemma fmt_08X_shape:
  assumes "0 \<le> n" "n < 1000000"
  shows "\<exists>ds. fmt_08X n = map hex_digit ds \<and> list_all (\<lambda>d. d < 16) ds \<and> length ds = 8"
proof -
  from hex_digits_shape [of "nat n"] obtain ds where ds:
    "hex_digits (nat n) = map hex_digit ds" "list_all (\<lambda>d. d < 16) ds"
    "\<forall>k. nat n < 16 ^ Suc k \<longrightarrow> length ds \<le> Suc k" by blast
  from assms have "nat n < 16 ^ Suc 7" by simp
  with ds(3) have len: "length ds \<le> 8" by (metis eval_nat_numeral(3) numeral_eq_Suc pred_numeral_simps(2) semiring_norm(26,27) le_trans le_refl)
  let ?ds = "replicate (8 - length ds) 0 @ ds"
  have "fmt_08X n = map hex_digit ?ds"
    using assms ds(1) by (simp add: fmt_08X_def zfill_def hex_digit_simps)
  moreover have "list_all (\<lambda>d. d < 16) ?ds" using ds(2) by (auto simp: list_all_iff)
  moreover have "length ?ds = 8" using len by simp
  ultimately show ?thesis by blast
qed

lemma bytes_fromhex_hex_digits:
  "list_all (\<lambda>d. d < 16) ds \<Longrightarrow> even (length ds) \<Longrightarrow>
   \<exists>bs. bytes_fromhex (map hex_digit ds) = Inr bs \<and> 2 * length bs = length ds"
proof (induction ds rule: induct_list012)
  case 1
  then show ?case by simp
next
  case (2 x)
  then show ?case by simp
next
  case (3 a b ds)
  then have ab: "a < 16" "b < 16" and all: "list_all (\<lambda>d. d < 16) ds"
    and ev: "even (length ds)" by simp_all
  from "3.IH"(1) [OF all ev] obtain bs where
    "bytes_fromhex (map hex_digit ds) = Inr bs" "2 * length bs = length ds" by blast
  with ab show ?case by (simp add: hex_val_hex_digit not_space_hex_digit)
qed

section \<open>Request frames and the poll of one device\<close>

lemma bytes_fromhex_append_cmd:
  "list_all (\<lambda>d. d < 16) ds \<Longrightarrow> even (length ds) \<Longrightarrow> a < 16 \<Longrightarrow> b < 16 \<Longrightarrow>
   \<exists>bs. bytes_fromhex (map hex_digit ds @ [hex_digit a, hex_digit b]) = Inr (bs @ [of_nat (16 * a + b)])
        \<and> 2 * length bs = length ds"
proof (induction ds rule: induct_list012)
  case 1
  then show ?case by (simp add: hex_val_hex_digit not_space_hex_digit)
next
  case (2 x)
  then show ?case by simp
next
  case (3 x y ds)
  then have xy: "x < 16" "y < 16" and all: "list_all (\<lambda>d. d < 16) ds"
    and ev: "even (length ds)" by simp_all
  from "3.IH"(1) [OF all ev "3.prems"(3,4)] obtain bs where
    "bytes_fromhex (map hex_digit ds @ [hex_digit a, hex_digit b]) = Inr (bs @ [of_nat (16 * a + b)])"
    "2 * length bs = length ds" by blast
  with xy show ?case
    by (intro exI [of _ "of_nat (16 * x + y) # bs"])
       (simp add: hex_val_hex_digit not_space_hex_digit)
qed

lemma build_frame_shape:
  assumes "0 \<le> n" "n < 1000000" "a < 16" "b < 16"
  shows "\<exists>f. build_frame (fmt_08X n) [hex_digit a, hex_digit b] = Inr f
           \<and> length f = 7 \<and> f ! 4 = of_nat (16 * a + b)"
proof -
  define cmd :: byte where "cmd = of_nat (16 * a + b)"
  from fmt_08X_shape [OF assms(1,2)] obtain ds where ds: "fmt_08X n = map hex_digit ds"
    "list_all (\<lambda>d. d < 16) ds" "length ds = 8" by blast
  then have ev: "even (length ds)" by simp
  from bytes_fromhex_append_cmd [OF ds(2) ev assms(3,4)] obtain bs where bs:
    "bytes_fromhex (map hex_digit ds @ [hex_digit a, hex_digit b]) = Inr (bs @ [cmd])"
    "2 * length bs = length ds" unfolding cmd_def by blast
  with ds(3) have len: "length bs = 4" by simp
  obtain c where c: "crc16_modbus (bs @ [cmd]) = Inr c" "length c = 2"
    using crc16_modbus_refines crc16_modbus_length by blast
  have "build_frame (fmt_08X n) [hex_digit a, hex_digit b] = Inr ((bs @ [cmd]) @ c)"
    by (simp add: build_frame_def ds(1) bs(1) c(1))
  moreover have "((bs @ [cmd]) @ c) ! 4 = cmd"
    using len by (simp add: nth_append)
  ultimately show ?thesis using len c(2) unfolding cmd_def by auto
qed

lemma build_frame_63:
  "0 \<le> n \<Longrightarrow> n < 1000000 \<Longrightarrow>
   \<exists>f. build_frame (fmt_08X n) ''63'' = Inr f \<and> length f = 7 \<and> f ! 4 = 0x63"
  using build_frame_shape [of n 6 3] by (simp add: hex_digit_simps)

lemma build_frame_27:
  "0 \<le> n \<Longrightarrow> n < 1000000 \<Longrightarrow>
   \<exists>f. build_frame (fmt_08X n) ''27'' = Inr f \<and> length f = 7 \<and> f ! 4 = 0x27"
  using build_frame_shape [of n 2 7] by (simp add: hex_digit_simps)

lemma send_frame_built:
  "build_frame addr_hex cmd_hex = Inr f \<Longrightarrow>
   send_frame cfg addr_hex cmd_hex w = attempts (TIMEOUT cfg) f (RETRY cfg) w"
  by (simp add: send_frame_def)

lemma bad_response_eq:
  "bad_response r =
     Inr (r = None \<or> r = Some []
          \<or> crc16_modbus (slice_to (- 2) (the r)) \<noteq> Inr (slice_from (- 2) (the r)))"
proof (cases r)
  case None
  then show ?thesis by (simp add: bad_response_def)
next
  case (Some resp)
  obtain c where "crc16_modbus (slice_to (- 2) resp) = Inr c"
    using crc16_modbus_refines by blast
  with Some show ?thesis by (simp add: bad_response_def)
qed

lemma bad_response_False_Some: "bad_response r = Inr False \<Longrightarrow> \<exists>resp. r = Some resp"
  by (cases r) (simp_all add: bad_response_def)

lemma bad_response_no_error: "\<exists>b. bad_response r = Inr b"
  by (simp add: bad_response_eq)

lemma poll_device_no_answer:
  "int_of_str serial = Inr n \<Longrightarrow> send_frame cfg (fmt_08X n) ''63'' w = Inr (r63, w1) \<Longrightarrow>
   bad_response r63 = Inr True \<Longrightarrow>
   poll_device cfg port serial w = Inr (NoAnswer port serial, w1)"
  by (simp add: poll_device_def)

lemma poll_device_partial:
  "int_of_str serial = Inr n \<Longrightarrow> send_frame cfg (fmt_08X n) ''63'' w = Inr (r63, w1) \<Longrightarrow>
   bad_response r63 = Inr False \<Longrightarrow> parse_63 (py_slice 5 (- 2) (the r63)) = Inr (U, I, P) \<Longrightarrow>
   send_frame cfg (fmt_08X n) ''27'' w1 = Inr (r27, w2) \<Longrightarrow> bad_response r27 = Inr True \<Longrightarrow>
   poll_device cfg port serial w = Inr (Reading port serial U I P None None, w2)"
  by (simp add: poll_device_def)

lemma poll_device_complete:
  "int_of_str serial = Inr n \<Longrightarrow> send_frame cfg (fmt_08X n) ''63'' w = Inr (r63, w1) \<Longrightarrow>
   bad_response r63 = Inr False \<Longrightarrow> parse_63 (py_slice 5 (- 2) (the r63)) = Inr (U, I, P) \<Longrightarrow>
   send_frame cfg (fmt_08X n) ''27'' w1 = Inr (r27, w2) \<Longrightarrow> bad_response r27 = Inr False \<Longrightarrow>
   parse_27 (py_slice 5 (- 2) (the r27)) = Inr (T1, T2) \<Longrightarrow>
   poll_device cfg port serial w = Inr (Reading port serial U I P (Some T1) (Some T2), w2)"
  by (simp add: poll_device_def)

lemma poll_device_bad_63:
  "int_of_str serial = Inr n \<Longrightarrow> send_frame cfg (fmt_08X n) ''63'' w = Inr (r63, w1) \<Longrightarrow>
   bad_response r63 = Inr False \<Longrightarrow> parse_63 (py_slice 5 (- 2) (the r63)) = Inl e \<Longrightarrow>
   poll_device cfg port serial w = Inl e"
  by (simp add: poll_device_def)

lemma poll_device_bad_27:
  "int_of_str serial = Inr n \<Longrightarrow> send_frame cfg (fmt_08X n) ''63'' w = Inr (r63, w1) \<Longrightarrow>
   bad_response r63 = Inr False \<Longrightarrow> parse_63 (py_slice 5 (- 2) (the r63)) = Inr (U, I, P) \<Longrightarrow>
   send_frame cfg (fmt_08X n) ''27'' w1 = Inr (r27, w2) \<Longrightarrow> bad_response r27 = Inr False \<Longrightarrow>
   parse_27 (py_slice 5 (- 2) (the r27)) = Inl e \<Longrightarrow>
   poll_device cfg port serial w = Inl e"
  by (simp add: poll_device_def)

lemma poll_serials_Cons:
  "poll_device cfg port serial w = Inr (r, w1) \<Longrightarrow>
   poll_serials cfg port (serial # rest) w =
     (r # fst (poll_serials cfg port rest w1), snd (poll_serials cfg port rest w1))"
  by (simp add: split_beta)

lemma poll_serials_raise:
  "poll_device cfg port serial w = Inl e \<Longrightarrow>
   poll_serials cfg port (serial # rest) w = ([], Inl e)"
  by simp

section \<open>The poll of one device\<close>

lemma send_frame_first_chunk:
  assumes "build_frame a c = Inr f" "0 < RETRY cfg" "send_ok w (length (sent w))"
    and "clock w (Suc (n_time w)) < clock w (n_time w) + TIMEOUT cfg"
    and "recv_res w (n_recv w) = Chunk r" "6 \<le> length r"
  shows "send_frame cfg a c w =
     Inr (Some r, w\<lparr>sent := sent w @ [f], n_time := n_time w + 2, n_recv := Suc (n_recv w)\<rparr>)"
proof -
  from assms(2) obtain m where m: "RETRY cfg = Suc m" by (cases "RETRY cfg") auto
  from assms(6) have ne: "r \<noteq> []" by auto
  let ?w1 = "w\<lparr>sent := sent w @ [f], n_time := Suc (n_time w)\<rparr>"
  have "recv_loop (clock w (n_time w) + TIMEOUT cfg) [] ?w1 =
      Inr (Some r, ?w1\<lparr>n_time := Suc (n_time ?w1), n_recv := Suc (n_recv ?w1)\<rparr>)"
    using assms(4,5,6) ne by (subst recv_loop_unfold) simp
  then show ?thesis
    using assms(1,3) m by (simp add: send_frame_built attempts_unfold del: attempts.simps)
qed

lemma send_frame_once_timeout:
  assumes "build_frame a c = Inr f" "RETRY cfg = 1" "send_ok w (length (sent w))"
    and "clock w (Suc (n_time w)) < clock w (n_time w) + TIMEOUT cfg"
    and "recv_res w (n_recv w) = RecvTimeout"
  shows "send_frame cfg a c w =
     Inr (None, w\<lparr>sent := sent w @ [f], n_time := n_time w + 2, n_recv := Suc (n_recv w)\<rparr>)"
proof -
  let ?w1 = "w\<lparr>sent := sent w @ [f], n_time := Suc (n_time w)\<rparr>"
  have "recv_loop (clock w (n_time w) + TIMEOUT cfg) [] ?w1 =
      Inr (None, ?w1\<lparr>n_time := Suc (n_time ?w1), n_recv := Suc (n_recv ?w1)\<rparr>)"
    using assms(4,5) by (subst recv_loop_unfold) simp
  then show ?thesis
    using assms(1,2,3) by (simp add: send_frame_built sock_sendall_def time_time_def)
qed

lemma is_serial_548973: "is_serial ''548973''"
  by (simp add: is_serial_def dec_val_def)

lemma build_frame_548973_27:
  "build_frame ''0008606D'' ''27'' = Inr [0x00, 0x08, 0x60, 0x6D, 0x27, 0x4A, 0xF4]"
  by code_simp


text \<open>
  Claim C5. For a device with a six-digit serial number: when the primary exchange
  returns absence or a response that fails the checksum test, the row printed is the
  no-answer row, the state is the one the primary exchange left (the frames written are
  copies of the request with command byte \<open>63\<close>, none with \<open>27\<close>), and the loop goes on
  with the next serial number. When the primary response decodes and the secondary
  exchange returns absence or a response that fails the checksum test, the row printed
  holds voltage, current and power with both energy columns as placeholders, and the loop
  goes on with the next serial number.
\<close>

theorem poll_device_no_answer_and_partial:
  "(is_serial serial \<longrightarrow>
     (\<exists>n f63 f27.
        int_of_str serial = Inr n
      \<and> build_frame (fmt_08X n) ''63'' = Inr f63 \<and> f63 ! 4 = 0x63
      \<and> build_frame (fmt_08X n) ''27'' = Inr f27 \<and> f27 ! 4 = 0x27
      \<and> (\<forall>r63 w1.
            send_frame cfg (fmt_08X n) ''63'' w = Inr (r63, w1) \<and> bad_response r63 = Inr True \<longrightarrow>
              poll_device cfg port serial w = Inr (NoAnswer port serial, w1)
            \<and> (\<exists>k\<le>RETRY cfg. sent w1 = sent w @ replicate k f63)
            \<and> poll_serials cfg port (serial # rest) w =
                (NoAnswer port serial # fst (poll_serials cfg port rest w1),
                 snd (poll_serials cfg port rest w1)))
      \<and> (\<forall>r63 w1 U I P r27 w2.
            send_frame cfg (fmt_08X n) ''63'' w = Inr (r63, w1) \<and> bad_response r63 = Inr False
            \<and> parse_63 (py_slice 5 (- 2) (the r63)) = Inr (U, I, P)
            \<and> send_frame cfg (fmt_08X n) ''27'' w1 = Inr (r27, w2)
            \<and> bad_response r27 = Inr True \<longrightarrow>
              poll_device cfg port serial w = Inr (Reading port serial U I P None None, w2)
            \<and> poll_serials cfg port (serial # rest) w =
                (Reading port serial U I P None None # fst (poll_serials cfg port rest w2),
                 snd (poll_serials cfg port rest w2)))))
   \<and> bad_response r =
       Inr (r = None \<or> r = Some []
            \<or> crc16_modbus (slice_to (- 2) (the r)) \<noteq> Inr (slice_from (- 2) (the r)))"
proof (intro conjI impI)
  assume "is_serial serial"
  from is_serial_int [OF this] obtain n where n: "int_of_str serial = Inr n" "0 \<le> n"
    "n < 1000000" by blast
  from build_frame_63 [OF n(2,3)] obtain f63 where
    f63: "build_frame (fmt_08X n) ''63'' = Inr f63" "f63 ! 4 = 0x63" by blast
  from build_frame_27 [OF n(2,3)] obtain f27 where
    f27: "build_frame (fmt_08X n) ''27'' = Inr f27" "f27 ! 4 = 0x27" by blast
  have a: "poll_device cfg port serial w = Inr (NoAnswer port serial, w1)
            \<and> (\<exists>k\<le>RETRY cfg. sent w1 = sent w @ replicate k f63)
            \<and> poll_serials cfg port (serial # rest) w =
                (NoAnswer port serial # fst (poll_serials cfg port rest w1),
                 snd (poll_serials cfg port rest w1))"
    if "send_frame cfg (fmt_08X n) ''63'' w = Inr (r63, w1) \<and> bad_response r63 = Inr True"
    for r63 w1
  proof -
    from that have p: "poll_device cfg port serial w = Inr (NoAnswer port serial, w1)"
      using poll_device_no_answer [OF n(1)] by blast
    from that have "attempts (TIMEOUT cfg) f63 (RETRY cfg) w = Inr (r63, w1)"
      by (simp add: send_frame_built [OF f63(1)])
    from attempts_frame [OF this] have "\<exists>k\<le>RETRY cfg. sent w1 = sent w @ replicate k f63"
      by blast
    with p poll_serials_Cons [OF p] show ?thesis by blast
  qed
  have b: "poll_device cfg port serial w = Inr (Reading port serial U I P None None, w2)
            \<and> poll_serials cfg port (serial # rest) w =
                (Reading port serial U I P None None # fst (poll_serials cfg port rest w2),
                 snd (poll_serials cfg port rest w2))"
    if "send_frame cfg (fmt_08X n) ''63'' w = Inr (r63, w1) \<and> bad_response r63 = Inr False
            \<and> parse_63 (py_slice 5 (- 2) (the r63)) = Inr (U, I, P)
            \<and> send_frame cfg (fmt_08X n) ''27'' w1 = Inr (r27, w2)
            \<and> bad_response r27 = Inr True"
    for r63 w1 U I P r27 w2
  proof -
    from that have p: "poll_device cfg port serial w =
        Inr (Reading port serial U I P None None, w2)"
      using poll_device_partial [OF n(1)] by blast
    with poll_serials_Cons [OF p] show ?thesis by blast
  qed
  from n(1) f63 f27 a b
  show "\<exists>n f63 f27.
        int_of_str serial = Inr n
      \<and> build_frame (fmt_08X n) ''63'' = Inr f63 \<and> f63 ! 4 = 0x63
      \<and> build_frame (fmt_08X n) ''27'' = Inr f27 \<and> f27 ! 4 = 0x27
      \<and> (\<forall>r63 w1.
            send_frame cfg (fmt_08X n) ''63'' w = Inr (r63, w1) \<and> bad_response r63 = Inr True \<longrightarrow>
              poll_device cfg port serial w = Inr (NoAnswer port serial, w1)
            \<and> (\<exists>k\<le>RETRY cfg. sent w1 = sent w @ replicate k f63)
            \<and> poll_serials cfg port (serial # rest) w =
                (NoAnswer port serial # fst (poll_serials cfg port rest w1),
                 snd (poll_serials cfg port rest w1)))
      \<and> (\<forall>r63 w1 U I P r27 w2.
            send_frame cfg (fmt_08X n) ''63'' w = Inr (r63, w1) \<and> bad_response r63 = Inr False
            \<and> parse_63 (py_slice 5 (- 2) (the r63)) = Inr (U, I, P)
            \<and> send_frame cfg (fmt_08X n) ''27'' w1 = Inr (r27, w2)
            \<and> bad_response r27 = Inr True \<longrightarrow>
              poll_device cfg port serial w = Inr (Reading port serial U I P None None, w2)
            \<and> poll_serials cfg port (serial # rest) w =
                (Reading port serial U I P None None # fst (poll_serials cfg port rest w2),
                 snd (poll_serials cfg port rest w2)))"
    by (intro exI [of _ n] exI [of _ f63] exI [of _ f27]) blast
next
  show "bad_response r =
       Inr (r = None \<or> r = Some []
            \<or> crc16_modbus (slice_to (- 2) (the r)) \<noteq> Inr (slice_from (- 2) (the r)))"
    by (rule bad_response_eq)
qed


lemma crc_response_63_ok:
  "crc16_modbus [0x00, 0x08, 0x60, 0x6D, 0x63, 0x02, 0x30, 0x01, 0x00, 0x00, 0x05, 0x00] =
     Inr [0xE3, 0xD3]"
  by code_simp

lemma bad_response_63_ok:
  "bad_response (Some [0x00, 0x08, 0x60, 0x6D, 0x63, 0x02, 0x30, 0x01, 0x00, 0x00, 0x05, 0x00,
     0xE3, 0xD3]) = Inr False"
  using bad_response_append_crc [OF crc_response_63_ok] by simp

lemma bad_response_None: "bad_response None = Inr True"
  by (simp add: bad_response_def)

lemma scripted_sel:
  "send_ok (scripted [] rs) k" "clock (scripted ss rs) k = 0" "sent (scripted ss rs) = []"
  "n_time (scripted ss rs) = 0" "n_recv (scripted ss rs) = 0"
  "recv_res (scripted ss (x # rs)) 0 = x" "recv_res (scripted ss []) k = RecvTimeout"
  "recv_res (scripted ss [x]) (Suc k) = RecvTimeout"
  by (simp_all add: scripted_def)

theorem poll_device_no_answer_and_partial_witness:
  "is_serial ''548973''
   \<and> poll_device default_settings 20003 ''548973'' (scripted [] []) =
       Inr (NoAnswer 20003 ''548973'',
            (scripted [] [])\<lparr>sent := [[0x00, 0x08, 0x60, 0x6D, 0x63, 0x4A, 0xC7]],
                               n_time := 2, n_recv := 1\<rparr>)
   \<and> poll_device default_settings 20003 ''548973''
         (scripted [] [Chunk [0x00, 0x08, 0x60, 0x6D, 0x63, 0x02, 0x30, 0x01, 0x00, 0x00, 0x05,
                              0x00, 0xE3, 0xD3]]) =
       Inr (Reading 20003 ''548973'' 23 1 500 None None,
            (scripted [] [Chunk [0x00, 0x08, 0x60, 0x6D, 0x63, 0x02, 0x30, 0x01, 0x00, 0x00,
                                 0x05, 0x00, 0xE3, 0xD3]])
              \<lparr>sent := [[0x00, 0x08, 0x60, 0x6D, 0x63, 0x4A, 0xC7],
                        [0x00, 0x08, 0x60, 0x6D, 0x27, 0x4A, 0xF4]],
               n_time := 4, n_recv := 2\<rparr>)"
proof -
  let ?cfg = default_settings
  let ?f63 = "[0x00, 0x08, 0x60, 0x6D, 0x63, 0x4A, 0xC7] :: byte list"
  let ?f27 = "[0x00, 0x08, 0x60, 0x6D, 0x27, 0x4A, 0xF4] :: byte list"
  let ?resp = "[0x00, 0x08, 0x60, 0x6D, 0x63, 0x02, 0x30, 0x01, 0x00, 0x00, 0x05, 0x00,
     0xE3, 0xD3] :: byte list"
  let ?w = "scripted [] []"
  let ?v = "scripted [] [Chunk ?resp]"
  have cfg: "RETRY ?cfg = 1" "0 < RETRY ?cfg" "TIMEOUT ?cfg = 8 / 10"
    by (simp_all add: default_settings_def)
  \<comment> \<open>a silent transport\<close>
  let ?w1 = "?w\<lparr>sent := [?f63], n_time := 2, n_recv := 1\<rparr>"
  have sw: "send_frame ?cfg ''0008606D'' ''63'' ?w = Inr (None, ?w1)"
    using send_frame_once_timeout [OF build_frame_548973_63 cfg(1), of ?w]
    by (simp add: scripted_sel cfg)
  from poll_device_no_answer_and_partial [of "''548973''" ?cfg ?w 20003 "[]" None,
      THEN conjunct1, THEN mp, OF is_serial_548973]
  obtain n f63 where n: "int_of_str ''548973'' = Inr n"
    and "build_frame (fmt_08X n) ''63'' = Inr f63"
    and a: "\<forall>r63 w1. send_frame ?cfg (fmt_08X n) ''63'' ?w = Inr (r63, w1)
          \<and> bad_response r63 = Inr True \<longrightarrow>
        poll_device ?cfg 20003 ''548973'' ?w = Inr (NoAnswer 20003 ''548973'', w1)
        \<and> (\<exists>k\<le>RETRY ?cfg. sent w1 = sent ?w @ replicate k f63)
        \<and> poll_serials ?cfg 20003 [''548973''] ?w =
            (NoAnswer 20003 ''548973'' # fst (poll_serials ?cfg 20003 [] w1),
             snd (poll_serials ?cfg 20003 [] w1))"
    by blast
  from n have "n = 548973" by (simp add: int_of_str_548973)
  with a sw bad_response_None
  have 1: "poll_device ?cfg 20003 ''548973'' ?w = Inr (NoAnswer 20003 ''548973'', ?w1)"
    by (simp add: fmt_08X_548973)
  \<comment> \<open>a transport that answers the primary request only\<close>
  let ?v1 = "?v\<lparr>sent := [?f63], n_time := 2, n_recv := 1\<rparr>"
  let ?v2 = "?v\<lparr>sent := [?f63, ?f27], n_time := 4, n_recv := 2\<rparr>"
  have s63: "send_frame ?cfg ''0008606D'' ''63'' ?v = Inr (Some ?resp, ?v1)"
    using send_frame_first_chunk [OF build_frame_548973_63 cfg(2), of ?v ?resp]
    by (simp add: scripted_sel cfg)
  have s27: "send_frame ?cfg ''0008606D'' ''27'' ?v1 = Inr (None, ?v2)"
    using send_frame_once_timeout [OF build_frame_548973_27 cfg(1), of ?v1]
    by (simp add: scripted_sel cfg scripted_def)
  have p: "parse_63 (py_slice 5 (- 2) ?resp) = Inr (23, 1, 500)"
    by (simp add: py_slice_def clamp_index_def parse_63_cases bcd_eval)
  from poll_device_no_answer_and_partial [of "''548973''" ?cfg ?v 20003 "[]" None,
      THEN conjunct1, THEN mp, OF is_serial_548973]
  obtain m where m: "int_of_str ''548973'' = Inr m"
    and b: "\<forall>r63 w1 U I P r27 w2.
        send_frame ?cfg (fmt_08X m) ''63'' ?v = Inr (r63, w1) \<and> bad_response r63 = Inr False
        \<and> parse_63 (py_slice 5 (- 2) (the r63)) = Inr (U, I, P)
        \<and> send_frame ?cfg (fmt_08X m) ''27'' w1 = Inr (r27, w2)
        \<and> bad_response r27 = Inr True \<longrightarrow>
          poll_device ?cfg 20003 ''548973'' ?v = Inr (Reading 20003 ''548973'' U I P None None, w2)
        \<and> poll_serials ?cfg 20003 [''548973''] ?v =
            (Reading 20003 ''548973'' U I P None None # fst (poll_serials ?cfg 20003 [] w2),
             snd (poll_serials ?cfg 20003 [] w2))"
    by blast
  from m have m': "m = 548973" by (simp add: int_of_str_548973)
  have 2: "poll_device ?cfg 20003 ''548973'' ?v =
      Inr (Reading 20003 ''548973'' 23 1 500 None None, ?v2)"
    using b [rule_format, of "Some ?resp" ?v1 23 1 500 None ?v2] s63 s27 p
      bad_response_63_ok bad_response_None
    by (simp add: m' fmt_08X_548973)
  from 1 2 is_serial_548973 show ?thesis by blast
qed

section \<open>Short payloads\<close>

lemma send_frame_no_error:
  assumes "\<forall>i. recv_res w i \<noteq> RecvError" "build_frame a c = Inr f"
  shows "\<exists>r w1. send_frame cfg a c w = Inr (r, w1) \<and> recv_res w1 = recv_res w"
proof -
  from attempts_no_error [OF assms(1)] obtain r w1 where
    "attempts (TIMEOUT cfg) f (RETRY cfg) w = Inr (r, w1)" by blast
  with attempts_frame [OF this] show ?thesis
    by (simp add: send_frame_built [OF assms(2)])
qed

lemma parse_63_ok:
  "bcd_ok (take 7 p) \<Longrightarrow>
   parse_63 p = Inr (real_of_int (bcd_value (take 2 p)) / 10,
                     real_of_int (bcd_value (take 2 (drop 2 p))) / 100,
                     bcd_value (take 3 (drop 4 p)))"
  by (simp add: parse_63_cases)

lemma parse_27_ok:
  "bcd_ok (take 8 p) \<Longrightarrow>
   parse_27 p = Inr (real_of_int (bcd_value (take 4 p)) / 100,
                     real_of_int (bcd_value (take 4 (drop 4 p))) / 100)"
  by (simp add: parse_27_cases)

lemma parse_63_bad: "\<not> bcd_ok (take 7 p) \<Longrightarrow> parse_63 p = Inl ValueError"
  by (simp add: parse_63_cases)

lemma parse_27_bad: "\<not> bcd_ok (take 8 p) \<Longrightarrow> parse_27 p = Inl ValueError"
  by (simp add: parse_27_cases)

text \<open>
  Claim C8, as the code has it. The decoders have no length requirement and the poll has
  no malformed-payload outcome: for a checksum-valid primary response whose payload,
  however short, has nibbles of at most 9, the row printed is an ordinary row of values,
  in which each field is the decimal value of those of its bytes that are present (0 when
  none is); the same holds for the two energy fields of a checksum-valid secondary
  response.
\<close>

theorem short_payload_gives_reading_row:
  "int_of_str serial = Inr n
   \<and> send_frame cfg (fmt_08X n) ''63'' w = Inr (Some r63, w1)
   \<and> bad_response (Some r63) = Inr False
   \<and> bcd_ok (py_slice 5 (- 2) r63)
   \<and> send_frame cfg (fmt_08X n) ''27'' w1 = Inr (r27, w2) \<longrightarrow>
     (bad_response r27 = Inr True \<longrightarrow>
        poll_device cfg port serial w =
          Inr (Reading port serial
                 (real_of_int (bcd_value (take 2 (py_slice 5 (- 2) r63))) / 10)
                 (real_of_int (bcd_value (take 2 (drop 2 (py_slice 5 (- 2) r63)))) / 100)
                 (bcd_value (take 3 (drop 4 (py_slice 5 (- 2) r63))))
                 None None, w2))
   \<and> (\<forall>q. r27 = Some q \<and> bad_response r27 = Inr False \<and> bcd_ok (py_slice 5 (- 2) q) \<longrightarrow>
        poll_device cfg port serial w =
          Inr (Reading port serial
                 (real_of_int (bcd_value (take 2 (py_slice 5 (- 2) r63))) / 10)
                 (real_of_int (bcd_value (take 2 (drop 2 (py_slice 5 (- 2) r63)))) / 100)
                 (bcd_value (take 3 (drop 4 (py_slice 5 (- 2) r63))))
                 (Some (real_of_int (bcd_value (take 4 (py_slice 5 (- 2) q))) / 100))
                 (Some (real_of_int (bcd_value (take 4 (drop 4 (py_slice 5 (- 2) q)))) / 100)),
               w2))
   \<and> bcd_value [] = 0"
proof (intro impI)
  assume h: "int_of_str serial = Inr n
   \<and> send_frame cfg (fmt_08X n) ''63'' w = Inr (Some r63, w1)
   \<and> bad_response (Some r63) = Inr False
   \<and> bcd_ok (py_slice 5 (- 2) r63)
   \<and> send_frame cfg (fmt_08X n) ''27'' w1 = Inr (r27, w2)"
  let ?p = "py_slice 5 (- 2) r63"
  from h have p: "parse_63 (py_slice 5 (- 2) (the (Some r63))) =
      Inr (real_of_int (bcd_value (take 2 ?p)) / 10,
           real_of_int (bcd_value (take 2 (drop 2 ?p))) / 100,
           bcd_value (take 3 (drop 4 ?p)))"
    by (simp add: parse_63_ok bcd_ok_take)
  have a: "poll_device cfg port serial w =
          Inr (Reading port serial
                 (real_of_int (bcd_value (take 2 ?p)) / 10)
                 (real_of_int (bcd_value (take 2 (drop 2 ?p))) / 100)
                 (bcd_value (take 3 (drop 4 ?p)))
                 None None, w2)" if "bad_response r27 = Inr True"
    using h that poll_device_partial [OF _ _ _ p, of serial n cfg w w1 r27 w2 port] by blast
  have b: "poll_device cfg port serial w =
          Inr (Reading port serial
                 (real_of_int (bcd_value (take 2 ?p)) / 10)
                 (real_of_int (bcd_value (take 2 (drop 2 ?p))) / 100)
                 (bcd_value (take 3 (drop 4 ?p)))
                 (Some (real_of_int (bcd_value (take 4 (py_slice 5 (- 2) q))) / 100))
                 (Some (real_of_int (bcd_value (take 4 (drop 4 (py_slice 5 (- 2) q)))) / 100)),
               w2)"
    if "r27 = Some q \<and> bad_response r27 = Inr False \<and> bcd_ok (py_slice 5 (- 2) q)" for q
  proof -
    from that have q: "parse_27 (py_slice 5 (- 2) (the r27)) =
        Inr (real_of_int (bcd_value (take 4 (py_slice 5 (- 2) q))) / 100,
             real_of_int (bcd_value (take 4 (drop 4 (py_slice 5 (- 2) q)))) / 100)"
      by (simp add: parse_27_ok bcd_ok_take)
    from h that show ?thesis
      using poll_device_complete [OF _ _ _ p _ _ q, of serial n cfg w w1 w2 port] by blast
  qed
  from a b show "(bad_response r27 = Inr True \<longrightarrow>
        poll_device cfg port serial w =
          Inr (Reading port serial
                 (real_of_int (bcd_value (take 2 (py_slice 5 (- 2) r63))) / 10)
                 (real_of_int (bcd_value (take 2 (drop 2 (py_slice 5 (- 2) r63)))) / 100)
                 (bcd_value (take 3 (drop 4 (py_slice 5 (- 2) r63))))
                 None None, w2))
   \<and> (\<forall>q. r27 = Some q \<and> bad_response r27 = Inr False \<and> bcd_ok (py_slice 5 (- 2) q) \<longrightarrow>
        poll_device cfg port serial w =
          Inr (Reading port serial
                 (real_of_int (bcd_value (take 2 (py_slice 5 (- 2) r63))) / 10)
                 (real_of_int (bcd_value (take 2 (drop 2 (py_slice 5 (- 2) r63)))) / 100)
                 (bcd_value (take 3 (drop 4 (py_slice 5 (- 2) r63))))
                 (Some (real_of_int (bcd_value (take 4 (py_slice 5 (- 2) q))) / 100))
                 (Some (real_of_int (bcd_value (take 4 (drop 4 (py_slice 5 (- 2) q)))) / 100)),
               w2))
   \<and> bcd_value [] = 0"
    using bcd_vals(1) by blast
qed


lemma crc_response_63_short:
  "crc16_modbus [0x00, 0x08, 0x60, 0x6D, 0x63, 0x02, 0x30, 0x01] = Inr [0x07, 0xE6]"
  by code_simp

lemma bad_response_63_short:
  "bad_response (Some [0x00, 0x08, 0x60, 0x6D, 0x63, 0x02, 0x30, 0x01, 0x07, 0xE6]) = Inr False"
  using bad_response_append_crc [OF crc_response_63_short] by simp

lemma crc_548973_63: "crc16_modbus [0x00, 0x08, 0x60, 0x6D, 0x63] = Inr [0x4A, 0xC7]"
  by code_simp

lemma bad_response_echo_63:
  "bad_response (Some [0x00, 0x08, 0x60, 0x6D, 0x63, 0x4A, 0xC7]) = Inr False"
  using bad_response_append_crc [OF crc_548973_63] by simp

lemma default_settings_sel:
  "RETRY default_settings = 1" "0 < RETRY default_settings" "TIMEOUT default_settings = 8 / 10"
  by (simp_all add: default_settings_def)

text \<open>One answered exchange followed by one that times out, with the default settings.\<close>

lemma scripted_answer_then_silence:
  assumes "6 \<le> length resp"
  shows "send_frame default_settings ''0008606D'' ''63'' (scripted [] [Chunk resp]) =
      Inr (Some resp, (scripted [] [Chunk resp])
             \<lparr>sent := [[0x00, 0x08, 0x60, 0x6D, 0x63, 0x4A, 0xC7]], n_time := 2, n_recv := 1\<rparr>)"
    and "send_frame default_settings ''0008606D'' ''27''
        ((scripted [] [Chunk resp])
             \<lparr>sent := [[0x00, 0x08, 0x60, 0x6D, 0x63, 0x4A, 0xC7]], n_time := 2, n_recv := 1\<rparr>) =
      Inr (None, (scripted [] [Chunk resp])
             \<lparr>sent := [[0x00, 0x08, 0x60, 0x6D, 0x63, 0x4A, 0xC7],
                       [0x00, 0x08, 0x60, 0x6D, 0x27, 0x4A, 0xF4]],
              n_time := 4, n_recv := 2\<rparr>)"
proof -
  let ?v = "scripted [] [Chunk resp]"
  let ?v1 = "?v\<lparr>sent := [[0x00, 0x08, 0x60, 0x6D, 0x63, 0x4A, 0xC7]], n_time := 2, n_recv := 1\<rparr>"
  show "send_frame default_settings ''0008606D'' ''63'' ?v = Inr (Some resp, ?v1)"
    using send_frame_first_chunk [OF build_frame_548973_63 default_settings_sel(2), of ?v resp] assms
    by (simp add: scripted_sel default_settings_sel)
  show "send_frame default_settings ''0008606D'' ''27'' ?v1 =
      Inr (None, ?v\<lparr>sent := [[0x00, 0x08, 0x60, 0x6D, 0x63, 0x4A, 0xC7],
                       [0x00, 0x08, 0x60, 0x6D, 0x27, 0x4A, 0xF4]],
              n_time := 4, n_recv := 2\<rparr>)"
    using send_frame_once_timeout [OF build_frame_548973_27 default_settings_sel(1), of ?v1]
    by (simp add: scripted_sel default_settings_sel scripted_def)
qed

theorem short_payload_gives_reading_row_witness:
  "bad_response (Some [0x00, 0x08, 0x60, 0x6D, 0x63, 0x02, 0x30, 0x01, 0x07, 0xE6]) = Inr False
   \<and> py_slice 5 (- 2) [0x00, 0x08, 0x60, 0x6D, 0x63, 0x02, 0x30, 0x01, 0x07, 0xE6 :: byte] =
       [0x02, 0x30, 0x01]
   \<and> bcd_ok [0x02, 0x30, 0x01]
   \<and> poll_device default_settings 20003 ''548973''
         (scripted [] [Chunk [0x00, 0x08, 0x60, 0x6D, 0x63, 0x02, 0x30, 0x01, 0x07, 0xE6]]) =
       Inr (Reading 20003 ''548973'' 23 (1 / 100) 0 None None,
            (scripted [] [Chunk [0x00, 0x08, 0x60, 0x6D, 0x63, 0x02, 0x30, 0x01, 0x07, 0xE6]])
              \<lparr>sent := [[0x00, 0x08, 0x60, 0x6D, 0x63, 0x4A, 0xC7],
                        [0x00, 0x08, 0x60, 0x6D, 0x27, 0x4A, 0xF4]],
               n_time := 4, n_recv := 2\<rparr>)"
proof -
  let ?resp = "[0x00, 0x08, 0x60, 0x6D, 0x63, 0x02, 0x30, 0x01, 0x07, 0xE6] :: byte list"
  let ?v = "scripted [] [Chunk ?resp]"
  let ?v1 = "?v\<lparr>sent := [[0x00, 0x08, 0x60, 0x6D, 0x63, 0x4A, 0xC7]], n_time := 2, n_recv := 1\<rparr>"
  let ?v2 = "?v\<lparr>sent := [[0x00, 0x08, 0x60, 0x6D, 0x63, 0x4A, 0xC7],
                       [0x00, 0x08, 0x60, 0x6D, 0x27, 0x4A, 0xF4]], n_time := 4, n_recv := 2\<rparr>"
  have len: "6 \<le> length ?resp" by simp
  have p: "py_slice 5 (- 2) ?resp = [0x02, 0x30, 0x01]"
    by (simp add: py_slice_def clamp_index_def)
  have ok: "bcd_ok [0x02, 0x30, 0x01]" by (simp add: bcd_eval)
  have "poll_device default_settings 20003 ''548973'' ?v =
      Inr (Reading 20003 ''548973'' 23 (1 / 100) 0 None None, ?v2)"
    using short_payload_gives_reading_row [of "''548973''" 548973 default_settings ?v ?resp ?v1
        None ?v2 20003, THEN mp, THEN conjunct1, THEN mp]
      scripted_answer_then_silence [OF len] bad_response_63_short bad_response_None
      int_of_str_548973 ok
    by (simp add: fmt_08X_548973 p bcd_eval)
  with p ok bad_response_63_short show ?thesis by blast
qed

text \<open>
  Claim C8 as stated fails: the echo of the request, \<open>00 08 60 6D 63 4A C7\<close>, is a
  checksum-valid response with an empty payload, and the row printed for it holds the
  values 0, 0 and 0; it is not a failure row.
\<close>

theorem short_payload_is_read_as_zero:
  "bad_response (Some [0x00, 0x08, 0x60, 0x6D, 0x63, 0x4A, 0xC7]) = Inr False
   \<and> py_slice 5 (- 2) [0x00, 0x08, 0x60, 0x6D, 0x63, 0x4A, 0xC7 :: byte] = []
   \<and> poll_device default_settings 20003 ''548973''
         (scripted [] [Chunk [0x00, 0x08, 0x60, 0x6D, 0x63, 0x4A, 0xC7]]) =
       Inr (Reading 20003 ''548973'' 0 0 0 None None,
            (scripted [] [Chunk [0x00, 0x08, 0x60, 0x6D, 0x63, 0x4A, 0xC7]])
              \<lparr>sent := [[0x00, 0x08, 0x60, 0x6D, 0x63, 0x4A, 0xC7],
                        [0x00, 0x08, 0x60, 0x6D, 0x27, 0x4A, 0xF4]],
               n_time := 4, n_recv := 2\<rparr>)"
proof -
  let ?resp = "[0x00, 0x08, 0x60, 0x6D, 0x63, 0x4A, 0xC7] :: byte list"
  have len: "6 \<le> length ?resp" by simp
  have p: "py_slice 5 (- 2) ?resp = []"
    by (simp add: py_slice_def clamp_index_def)
  have q: "parse_63 (py_slice 5 (- 2) (the (Some ?resp))) = Inr (0, 0, 0)"
    by (simp add: p parse_63_cases bcd_vals)
  have "int_of_str ''548973'' = Inr 548973" by (rule int_of_str_548973)
  from poll_device_partial [OF this _ bad_response_echo_63 q _ bad_response_None]
    scripted_answer_then_silence [OF len]
  have "poll_device default_settings 20003 ''548973'' (scripted [] [Chunk ?resp]) =
       Inr (Reading 20003 ''548973'' 0 0 0 None None,
            (scripted [] [Chunk ?resp])
              \<lparr>sent := [[0x00, 0x08, 0x60, 0x6D, 0x63, 0x4A, 0xC7],
                        [0x00, 0x08, 0x60, 0x6D, 0x27, 0x4A, 0xF4]],
               n_time := 4, n_recv := 2\<rparr>)"
    by (simp add: fmt_08X_548973)
  with p bad_response_echo_63 show ?thesis by blast
qed

section \<open>Exceptions that escape the poll\<close>

text \<open>
  Claim C9, as the code has it. For a six-digit serial number and a transport whose
  \<open>recv\<close> raises nothing but timeouts, the poll of a device either prints a row or raises
  \<open>ValueError\<close>: it raises exactly when a checksum-valid response has a nibble above 9
  among the payload bytes that the decoder reads (the first 7 of the primary payload, the
  first 8 of the secondary one), and the exception then ends the loop over the serial
  numbers.
\<close>

theorem poll_device_raises_on_bad_nibble_only:
  "is_serial serial \<and> (\<forall>i. recv_res w i \<noteq> RecvError) \<longrightarrow>
     (\<exists>n r63 w1.
        int_of_str serial = Inr n
      \<and> send_frame cfg (fmt_08X n) ''63'' w = Inr (r63, w1)
      \<and> (bad_response r63 = Inr True \<longrightarrow>
            poll_device cfg port serial w = Inr (NoAnswer port serial, w1))
      \<and> (bad_response r63 = Inr False \<and> \<not> bcd_ok (take 7 (py_slice 5 (- 2) (the r63))) \<longrightarrow>
            poll_device cfg port serial w = Inl ValueError
          \<and> poll_serials cfg port (serial # rest) w = ([], Inl ValueError))
      \<and> (bad_response r63 = Inr False \<and> bcd_ok (take 7 (py_slice 5 (- 2) (the r63))) \<longrightarrow>
            (\<exists>r27 w2.
               send_frame cfg (fmt_08X n) ''27'' w1 = Inr (r27, w2)
             \<and> (bad_response r27 = Inr False
                  \<and> \<not> bcd_ok (take 8 (py_slice 5 (- 2) (the r27))) \<longrightarrow>
                   poll_device cfg port serial w = Inl ValueError
                 \<and> poll_serials cfg port (serial # rest) w = ([], Inl ValueError))
             \<and> (bad_response r27 = Inr True
                  \<or> bcd_ok (take 8 (py_slice 5 (- 2) (the r27))) \<longrightarrow>
                   (\<exists>U I P T1 T2.
                      poll_device cfg port serial w =
                        Inr (Reading port serial U I P T1 T2, w2))))))"
proof (intro impI)
  assume h: "is_serial serial \<and> (\<forall>i. recv_res w i \<noteq> RecvError)"
  from is_serial_int [of serial] h obtain n where n: "int_of_str serial = Inr n" "0 \<le> n"
    "n < 1000000" by blast
  from build_frame_63 [OF n(2,3)] obtain f63 where
    f63: "build_frame (fmt_08X n) ''63'' = Inr f63" by blast
  from build_frame_27 [OF n(2,3)] obtain f27 where
    f27: "build_frame (fmt_08X n) ''27'' = Inr f27" by blast
  from send_frame_no_error [OF _ f63, of w cfg] h obtain r63 w1 where
    s63: "send_frame cfg (fmt_08X n) ''63'' w = Inr (r63, w1)" and rs: "recv_res w1 = recv_res w"
    by blast
  from rs h have "\<forall>i. recv_res w1 i \<noteq> RecvError" by simp
  from send_frame_no_error [OF this f27, of cfg] obtain r27 w2 where
    s27: "send_frame cfg (fmt_08X n) ''27'' w1 = Inr (r27, w2)" by blast
  let ?p = "py_slice 5 (- 2) (the r63)"
  let ?q = "py_slice 5 (- 2) (the r27)"
  have a: "poll_device cfg port serial w = Inr (NoAnswer port serial, w1)"
    if "bad_response r63 = Inr True"
    by (rule poll_device_no_answer [OF n(1) s63 that])
  have b: "poll_device cfg port serial w = Inl ValueError
          \<and> poll_serials cfg port (serial # rest) w = ([], Inl ValueError)"
    if "bad_response r63 = Inr False \<and> \<not> bcd_ok (take 7 ?p)"
  proof -
    from that have "parse_63 ?p = Inl ValueError" by (simp add: parse_63_bad)
    with that have "poll_device cfg port serial w = Inl ValueError"
      using poll_device_bad_63 [OF n(1) s63] by blast
    then show ?thesis by (simp add: poll_serials_raise)
  qed
  have c: "poll_device cfg port serial w = Inl ValueError
          \<and> poll_serials cfg port (serial # rest) w = ([], Inl ValueError)"
    if "bad_response r63 = Inr False \<and> bcd_ok (take 7 ?p)"
      "bad_response r27 = Inr False \<and> \<not> bcd_ok (take 8 ?q)"
  proof -
    from that(1) have p: "parse_63 ?p = Inr (real_of_int (bcd_value (take 2 ?p)) / 10,
        real_of_int (bcd_value (take 2 (drop 2 ?p))) / 100, bcd_value (take 3 (drop 4 ?p)))"
      by (simp add: parse_63_ok)
    from that(2) have "parse_27 ?q = Inl ValueError" by (simp add: parse_27_bad)
    with that have "poll_device cfg port serial w = Inl ValueError"
      using poll_device_bad_27 [OF n(1) s63 _ p s27] by blast
    then show ?thesis by (simp add: poll_serials_raise)
  qed
  have d: "\<exists>U I P T1 T2. poll_device cfg port serial w = Inr (Reading port serial U I P T1 T2, w2)"
    if "bad_response r63 = Inr False \<and> bcd_ok (take 7 ?p)"
      "bad_response r27 = Inr True \<or> bcd_ok (take 8 ?q)"
  proof -
    from that(1) have p: "parse_63 ?p = Inr (real_of_int (bcd_value (take 2 ?p)) / 10,
        real_of_int (bcd_value (take 2 (drop 2 ?p))) / 100, bcd_value (take 3 (drop 4 ?p)))"
      by (simp add: parse_63_ok)
    from bad_response_no_error [of r27] obtain bad where bad: "bad_response r27 = Inr bad"
      by blast
    show ?thesis
    proof (cases bad)
      case True
      with bad have t: "bad_response r27 = Inr True" by simp
      from that(1) have f: "bad_response r63 = Inr False" by simp
      from poll_device_partial [OF n(1) s63 f p s27 t] show ?thesis by blast
    next
      case False
      with bad have t: "bad_response r27 = Inr False" by simp
      from that(1) have f: "bad_response r63 = Inr False" by simp
      from t that(2) have "bcd_ok (take 8 ?q)" by simp
      then have q: "parse_27 ?q = Inr (real_of_int (bcd_value (take 4 ?q)) / 100,
          real_of_int (bcd_value (take 4 (drop 4 ?q))) / 100)"
        by (simp add: parse_27_ok)
      from poll_device_complete [OF n(1) s63 f p s27 t q] show ?thesis by blast
    qed
  qed
  from c d s27 have e: "bad_response r63 = Inr False \<and> bcd_ok (take 7 ?p) \<longrightarrow>
            (\<exists>r27 w2.
               send_frame cfg (fmt_08X n) ''27'' w1 = Inr (r27, w2)
             \<and> (bad_response r27 = Inr False
                  \<and> \<not> bcd_ok (take 8 (py_slice 5 (- 2) (the r27))) \<longrightarrow>
                   poll_device cfg port serial w = Inl ValueError
                 \<and> poll_serials cfg port (serial # rest) w = ([], Inl ValueError))
             \<and> (bad_response r27 = Inr True
                  \<or> bcd_ok (take 8 (py_slice 5 (- 2) (the r27))) \<longrightarrow>
                   (\<exists>U I P T1 T2.
                      poll_device cfg port serial w =
                        Inr (Reading port serial U I P T1 T2, w2))))"
    by (intro impI exI [of _ r27] exI [of _ w2]) blast
  from n(1) s63 a b e
  show "\<exists>n r63 w1.
        int_of_str serial = Inr n
      \<and> send_frame cfg (fmt_08X n) ''63'' w = Inr (r63, w1)
      \<and> (bad_response r63 = Inr True \<longrightarrow>
            poll_device cfg port serial w = Inr (NoAnswer port serial, w1))
      \<and> (bad_response r63 = Inr False \<and> \<not> bcd_ok (take 7 (py_slice 5 (- 2) (the r63))) \<longrightarrow>
            poll_device cfg port serial w = Inl ValueError
          \<and> poll_serials cfg port (serial # rest) w = ([], Inl ValueError))
      \<and> (bad_response r63 = Inr False \<and> bcd_ok (take 7 (py_slice 5 (- 2) (the r63))) \<longrightarrow>
            (\<exists>r27 w2.
               send_frame cfg (fmt_08X n) ''27'' w1 = Inr (r27, w2)
             \<and> (bad_response r27 = Inr False
                  \<and> \<not> bcd_ok (take 8 (py_slice 5 (- 2) (the r27))) \<longrightarrow>
                   poll_device cfg port serial w = Inl ValueError
                 \<and> poll_serials cfg port (serial # rest) w = ([], Inl ValueError))
             \<and> (bad_response r27 = Inr True
                  \<or> bcd_ok (take 8 (py_slice 5 (- 2) (the r27))) \<longrightarrow>
                   (\<exists>U I P T1 T2.
                      poll_device cfg port serial w =
                        Inr (Reading port serial U I P T1 T2, w2)))))"
    by (intro exI [of _ n] exI [of _ r63] exI [of _ w1]) blast
qed


lemma crc_response_27_ok:
  "crc16_modbus [0x00, 0x08, 0x60, 0x6D, 0x27, 0x00, 0x01, 0x23, 0x45, 0x00, 0x06, 0x78, 0x90] =
     Inr [0x29, 0xB1]"
  by code_simp

lemma bad_response_27_ok:
  "bad_response (Some [0x00, 0x08, 0x60, 0x6D, 0x27, 0x00, 0x01, 0x23, 0x45, 0x00, 0x06, 0x78,
     0x90, 0x29, 0xB1]) = Inr False"
  using bad_response_append_crc [OF crc_response_27_ok] by simp

lemma crc_response_63_hex:
  "crc16_modbus [0x00, 0x08, 0x60, 0x6D, 0x63, 0xA0, 0x00, 0x00, 0x00, 0x00, 0x00, 0x00] =
     Inr [0x5B, 0x79]"
  by code_simp

lemma bad_response_63_hex:
  "bad_response (Some [0x00, 0x08, 0x60, 0x6D, 0x63, 0xA0, 0x00, 0x00, 0x00, 0x00, 0x00, 0x00,
     0x5B, 0x79]) = Inr False"
  using bad_response_append_crc [OF crc_response_63_hex] by simp

theorem poll_device_raises_on_bad_nibble_only_witness:
  "is_serial ''548973''
   \<and> (\<forall>i. recv_res (scripted []
          [Chunk [0x00, 0x08, 0x60, 0x6D, 0x63, 0x02, 0x30, 0x01, 0x00, 0x00, 0x05, 0x00,
                  0xE3, 0xD3],
           Chunk [0x00, 0x08, 0x60, 0x6D, 0x27, 0x00, 0x01, 0x23, 0x45, 0x00, 0x06, 0x78,
                  0x90, 0x29, 0xB1]]) i \<noteq> RecvError)
   \<and> (\<exists>U I P T1 T2 w2.
        poll_device default_settings 20003 ''548973'' (scripted []
          [Chunk [0x00, 0x08, 0x60, 0x6D, 0x63, 0x02, 0x30, 0x01, 0x00, 0x00, 0x05, 0x00,
                  0xE3, 0xD3],
           Chunk [0x00, 0x08, 0x60, 0x6D, 0x27, 0x00, 0x01, 0x23, 0x45, 0x00, 0x06, 0x78,
                  0x90, 0x29, 0xB1]]) =
        Inr (Reading 20003 ''548973'' U I P T1 T2, w2))"
proof -
  let ?r63 = "[0x00, 0x08, 0x60, 0x6D, 0x63, 0x02, 0x30, 0x01, 0x00, 0x00, 0x05, 0x00,
     0xE3, 0xD3] :: byte list"
  let ?r27 = "[0x00, 0x08, 0x60, 0x6D, 0x27, 0x00, 0x01, 0x23, 0x45, 0x00, 0x06, 0x78,
     0x90, 0x29, 0xB1] :: byte list"
  let ?v = "scripted [] [Chunk ?r63, Chunk ?r27]"
  let ?v1 = "?v\<lparr>sent := [[0x00, 0x08, 0x60, 0x6D, 0x63, 0x4A, 0xC7]], n_time := 2, n_recv := 1\<rparr>"
  let ?v2 = "?v\<lparr>sent := [[0x00, 0x08, 0x60, 0x6D, 0x63, 0x4A, 0xC7],
                       [0x00, 0x08, 0x60, 0x6D, 0x27, 0x4A, 0xF4]], n_time := 4, n_recv := 2\<rparr>"
  have ne: "\<forall>i. recv_res ?v i \<noteq> RecvError"
    by (simp add: scripted_def nth_Cons split: nat.split)
  have s63: "send_frame default_settings ''0008606D'' ''63'' ?v = Inr (Some ?r63, ?v1)"
    using send_frame_first_chunk [OF build_frame_548973_63 default_settings_sel(2), of ?v ?r63]
    by (simp add: scripted_sel default_settings_sel)
  have s27: "send_frame default_settings ''0008606D'' ''27'' ?v1 = Inr (Some ?r27, ?v2)"
    using send_frame_first_chunk [OF build_frame_548973_27 default_settings_sel(2), of ?v1 ?r27]
    by (simp add: scripted_sel default_settings_sel scripted_def)
  have ok63: "bcd_ok (take 7 (py_slice 5 (- 2) ?r63))"
    by (simp add: py_slice_def clamp_index_def bcd_eval)
  have ok27: "bcd_ok (take 8 (py_slice 5 (- 2) ?r27))"
    by (simp add: py_slice_def clamp_index_def bcd_eval)
  from poll_device_raises_on_bad_nibble_only [of "''548973''" ?v default_settings 20003 "[]",
      THEN mp, OF conjI, OF is_serial_548973 ne]
  obtain n r63 w1 where n: "int_of_str ''548973'' = Inr n"
    and s: "send_frame default_settings (fmt_08X n) ''63'' ?v = Inr (r63, w1)"
    and c: "bad_response r63 = Inr False \<and> bcd_ok (take 7 (py_slice 5 (- 2) (the r63))) \<longrightarrow>
            (\<exists>r27 w2.
               send_frame default_settings (fmt_08X n) ''27'' w1 = Inr (r27, w2)
             \<and> (bad_response r27 = Inr True
                  \<or> bcd_ok (take 8 (py_slice 5 (- 2) (the r27))) \<longrightarrow>
                   (\<exists>U I P T1 T2.
                      poll_device default_settings 20003 ''548973'' ?v =
                        Inr (Reading 20003 ''548973'' U I P T1 T2, w2))))"
    by blast
  from n have n': "n = 548973" by (simp add: int_of_str_548973)
  from s s63 have r: "r63 = Some ?r63" "w1 = ?v1" by (simp_all add: n' fmt_08X_548973)
  from c r ok63 bad_response_63_ok obtain r27 w2 where
    t: "send_frame default_settings (fmt_08X n) ''27'' ?v1 = Inr (r27, w2)"
    and d: "bad_response r27 = Inr True \<or> bcd_ok (take 8 (py_slice 5 (- 2) (the r27))) \<longrightarrow>
        (\<exists>U I P T1 T2. poll_device default_settings 20003 ''548973'' ?v =
            Inr (Reading 20003 ''548973'' U I P T1 T2, w2))"
    by auto
  from t s27 have "r27 = Some ?r27" by (simp add: n' fmt_08X_548973)
  with d ok27 have "\<exists>U I P T1 T2 w2. poll_device default_settings 20003 ''548973'' ?v =
      Inr (Reading 20003 ''548973'' U I P T1 T2, w2)"
    by auto
  with is_serial_548973 ne show ?thesis by blast
qed

text \<open>
  Claim C9 as stated fails. A checksum-valid primary response whose first payload byte is
  \<open>A0\<close> makes \<open>bcd_to_int\<close> raise \<open>ValueError\<close>; nothing catches it, so no row is printed for
  the device and the loop over the serial numbers ends there. An \<open>OSError\<close> of \<open>recv\<close>
  other than the timeout escapes in the same way.
\<close>

theorem bad_nibble_aborts_the_poll:
  "bad_response (Some [0x00, 0x08, 0x60, 0x6D, 0x63, 0xA0, 0x00, 0x00, 0x00, 0x00, 0x00, 0x00,
       0x5B, 0x79]) = Inr False
   \<and> poll_device default_settings 20003 ''548973''
       (scripted [] [Chunk [0x00, 0x08, 0x60, 0x6D, 0x63, 0xA0, 0x00, 0x00, 0x00, 0x00, 0x00,
                            0x00, 0x5B, 0x79]]) = Inl ValueError
   \<and> poll_serials default_settings 20003 [''548973'', ''548974'']
       (scripted [] [Chunk [0x00, 0x08, 0x60, 0x6D, 0x63, 0xA0, 0x00, 0x00, 0x00, 0x00, 0x00,
                            0x00, 0x5B, 0x79]]) = ([], Inl ValueError)
   \<and> poll_device default_settings 20003 ''548973'' (scripted [] [RecvError]) = Inl OSError"
proof -
  let ?resp = "[0x00, 0x08, 0x60, 0x6D, 0x63, 0xA0, 0x00, 0x00, 0x00, 0x00, 0x00, 0x00,
       0x5B, 0x79] :: byte list"
  let ?v = "scripted [] [Chunk ?resp]"
  have len: "6 \<le> length ?resp" by simp
  have "\<not> bcd_ok (take 7 (py_slice 5 (- 2) (the (Some ?resp))))"
    by (simp add: py_slice_def clamp_index_def bcd_eval)
  then have p: "parse_63 (py_slice 5 (- 2) (the (Some ?resp))) = Inl ValueError"
    by (rule parse_63_bad)
  have i: "int_of_str ''548973'' = Inr 548973" by (rule int_of_str_548973)
  from poll_device_bad_63 [OF i _ bad_response_63_hex p]
    scripted_answer_then_silence(1) [OF len]
  have 1: "poll_device default_settings 20003 ''548973'' ?v = Inl ValueError"
    by (simp add: fmt_08X_548973)
  then have 2: "poll_serials default_settings 20003 [''548973'', ''548974''] ?v =
      ([], Inl ValueError)"
    by (rule poll_serials_raise)
  have "send_frame default_settings ''0008606D'' ''63'' (scripted [] [RecvError]) = Inl OSError"
    by (simp add: send_frame_def build_frame_548973_63 default_settings_def sock_sendall_def
        time_time_def recv_loop_unfold scripted_def)
  then have 3: "poll_device default_settings 20003 ''548973'' (scripted [] [RecvError]) =
      Inl OSError"
    by (simp add: poll_device_def int_of_str_548973 fmt_08X_548973)
  from 1 2 3 bad_response_63_hex show ?thesis by blast
qed

section \<open>One attempt of the exchange, step by step\<close>

lemma recv_loop_advance:
  assumes "\<forall>j<k. clock w (n_time w + j) < d"
    and "\<forall>j<k. \<exists>c. recv_res w (n_recv w + j) = Chunk c \<and> c \<noteq> []"
    and "length (resp @ received w (n_recv w) k) < 6"
  shows "recv_loop d resp w =
     recv_loop d (resp @ received w (n_recv w) k)
       (w\<lparr>n_time := n_time w + k, n_recv := n_recv w + k\<rparr>)"
  using assms
proof (induction k arbitrary: resp w)
  case 0
  then show ?case by (simp add: received_0)
next
  case (Suc k)
  let ?w1 = "w\<lparr>n_time := Suc (n_time w), n_recv := Suc (n_recv w)\<rparr>"
  from Suc.prems(2) obtain c where c: "recv_res w (n_recv w) = Chunk c" "c \<noteq> []"
    by (metis add.right_neutral zero_less_Suc)
  from Suc.prems(1) have t: "clock w (n_time w) < d"
    by (metis add.right_neutral zero_less_Suc)
  have rs: "received ?w1 i j = received w i j" for i j
    by (rule received_script) simp
  have fr: "received w (n_recv w) (Suc j) = c @ received w (Suc (n_recv w)) j" for j
    using c by (simp add: received_Suc_front chunk_bytes_def)
  from Suc.prems(3) have short: "\<not> 6 \<le> length (resp @ c)"
    by (simp add: fr)
  have 1: "\<forall>j<k. clock ?w1 (n_time ?w1 + j) < d"
    using Suc.prems(1) by (auto dest: spec [of _ "Suc j" for j])
  have 2: "\<forall>j<k. \<exists>c. recv_res ?w1 (n_recv ?w1 + j) = Chunk c \<and> c \<noteq> []"
    using Suc.prems(2) by (auto dest: spec [of _ "Suc j" for j])
  have 3: "length ((resp @ c) @ received ?w1 (n_recv ?w1) k) < 6"
    using Suc.prems(3) by (simp add: rs fr)
  have "recv_loop d resp w = recv_loop d (resp @ c) ?w1"
    using c t short by (subst recv_loop_unfold) simp
  also have "\<dots> = recv_loop d ((resp @ c) @ received ?w1 (n_recv ?w1) k)
       (?w1\<lparr>n_time := n_time ?w1 + k, n_recv := n_recv ?w1 + k\<rparr>)"
    by (rule Suc.IH [OF 1 2 3])
  finally show ?case by (simp add: rs fr)
qed

lemma recv_loop_deadline:
  assumes "\<forall>j<k. clock w (n_time w + j) < d"
    and "\<forall>j<k. \<exists>c. recv_res w (n_recv w + j) = Chunk c \<and> c \<noteq> []"
    and "length (resp @ received w (n_recv w) k) < 6"
    and "\<not> clock w (n_time w + k) < d"
  shows "recv_loop d resp w =
     Inr (None, w\<lparr>n_time := n_time w + Suc k, n_recv := n_recv w + k\<rparr>)"
  using assms(4)
  by (subst recv_loop_advance [OF assms(1-3)], subst recv_loop_unfold) simp

lemma recv_loop_breaks:
  assumes "\<forall>j<k. clock w (n_time w + j) < d"
    and "\<forall>j<k. \<exists>c. recv_res w (n_recv w + j) = Chunk c \<and> c \<noteq> []"
    and "length (resp @ received w (n_recv w) k) < 6"
    and "clock w (n_time w + k) < d"
    and "recv_res w (n_recv w + k) = RecvTimeout \<or> recv_res w (n_recv w + k) = Chunk []"
  shows "recv_loop d resp w =
     Inr (None, w\<lparr>n_time := n_time w + Suc k, n_recv := n_recv w + Suc k\<rparr>)"
  using assms(4,5)
  by (subst recv_loop_advance [OF assms(1-3)], subst recv_loop_unfold) auto

lemma recv_loop_raises:
  assumes "\<forall>j<k. clock w (n_time w + j) < d"
    and "\<forall>j<k. \<exists>c. recv_res w (n_recv w + j) = Chunk c \<and> c \<noteq> []"
    and "length (resp @ received w (n_recv w) k) < 6"
    and "clock w (n_time w + k) < d"
    and "recv_res w (n_recv w + k) = RecvError"
  shows "recv_loop d resp w = Inl OSError"
  using assms(4,5)
  by (subst recv_loop_advance [OF assms(1-3)], subst recv_loop_unfold) simp

lemma recv_loop_Some_script:
  "recv_loop d resp w = Inr (Some r, w') \<Longrightarrow>
   \<forall>j. n_recv w + j < n_recv w' \<longrightarrow>
     clock w (n_time w + j) < d \<and> (\<exists>c. recv_res w (n_recv w + j) = Chunk c \<and> c \<noteq> [])"
proof (induction d resp w rule: recv_loop_induct)
  case (step d resp w)
  let ?w1 = "w\<lparr>n_time := Suc (n_time w), n_recv := Suc (n_recv w)\<rparr>"
  from step.prems have t: "clock w (n_time w) < d"
    by (subst (asm) recv_loop_unfold) (simp split: if_splits)
  with step.prems obtain c where c: "recv_res w (n_recv w) = Chunk c" "c \<noteq> []"
    by (subst (asm) recv_loop_unfold) (auto split: if_splits recv_result.splits)
  show ?case
  proof (cases "6 \<le> length (resp @ c)")
    case True
    with step.prems t c have "w' = ?w1"
      by (subst (asm) recv_loop_unfold) simp
    with t c show ?thesis by simp
  next
    case False
    with step.prems t c have "recv_loop d (resp @ c) ?w1 = Inr (Some r, w')"
      by (subst (asm) recv_loop_unfold) simp
    from step.IH [OF t c(1) c(2) False this]
    have ih: "\<forall>j. n_recv ?w1 + j < n_recv w' \<longrightarrow>
        clock ?w1 (n_time ?w1 + j) < d \<and> (\<exists>c. recv_res ?w1 (n_recv ?w1 + j) = Chunk c \<and> c \<noteq> [])" .
    show ?thesis
    proof (intro allI impI)
      fix j assume j: "n_recv w + j < n_recv w'"
      show "clock w (n_time w + j) < d \<and> (\<exists>c. recv_res w (n_recv w + j) = Chunk c \<and> c \<noteq> [])"
      proof (cases j)
        case 0
        with t c show ?thesis by simp
      next
        case (Suc i)
        with j ih [rule_format, of i] show ?thesis by simp
      qed
    qed
  qed
qed

lemma recv_loop_error_inv:
  "recv_loop d resp w = Inl e \<Longrightarrow> e = OSError \<and> (\<exists>i\<ge>n_recv w. recv_res w i = RecvError)"
proof (induction d resp w rule: recv_loop_induct)
  case (step d resp w)
  let ?w1 = "w\<lparr>n_time := Suc (n_time w), n_recv := Suc (n_recv w)\<rparr>"
  from step.prems have t: "clock w (n_time w) < d"
    by (subst (asm) recv_loop_unfold) (simp split: if_splits)
  show ?case
  proof (cases "recv_res w (n_recv w)")
    case (Chunk c)
    with step.prems t have c: "c \<noteq> []" "\<not> 6 \<le> length (resp @ c)"
      and r: "recv_loop d (resp @ c) ?w1 = Inl e"
      by (subst (asm) recv_loop_unfold, simp split: if_splits)+
    from step.IH [OF t Chunk c r] show ?thesis
      by (auto intro: Suc_leD)
  next
    case RecvTimeout
    with step.prems t show ?thesis by (subst (asm) recv_loop_unfold) simp
  next
    case RecvError
    with step.prems t show ?thesis by (subst (asm) recv_loop_unfold) auto
  qed
qed

lemma attempts_returns:
  assumes "send_ok w (length (sent w))"
    and "\<forall>j\<le>k. clock w (Suc (n_time w) + j) < clock w (n_time w) + tmo"
    and "\<forall>j\<le>k. \<exists>c. recv_res w (n_recv w + j) = Chunk c \<and> c \<noteq> []"
    and "length (received w (n_recv w) k) < 6"
    and "6 \<le> length (received w (n_recv w) (Suc k))"
  shows "attempts tmo f (Suc n) w =
     Inr (Some (received w (n_recv w) (Suc k)),
          w\<lparr>sent := sent w @ [f], n_time := n_time w + Suc (Suc k),
            n_recv := n_recv w + Suc k\<rparr>)"
proof -
  let ?w1 = "w\<lparr>sent := sent w @ [f], n_time := Suc (n_time w)\<rparr>"
  have rs: "received ?w1 i j = received w i j" for i j
    by (rule received_script) simp
  have "recv_loop (clock w (n_time w) + tmo) [] ?w1 =
     Inr (Some ([] @ received ?w1 (n_recv ?w1) (Suc k)),
          ?w1\<lparr>n_time := n_time ?w1 + Suc k, n_recv := n_recv ?w1 + Suc k\<rparr>)"
    using assms(2-5) by (intro recv_loop_returns) (simp_all add: rs)
  with assms(1) show ?thesis
    by (simp add: attempts_unfold rs del: attempts.simps)
qed

lemma attempts_retry_break:
  assumes "send_ok w (length (sent w))"
    and "\<forall>j\<le>k. clock w (Suc (n_time w) + j) < clock w (n_time w) + tmo"
    and "\<forall>j<k. \<exists>c. recv_res w (n_recv w + j) = Chunk c \<and> c \<noteq> []"
    and "length (received w (n_recv w) k) < 6"
    and "recv_res w (n_recv w + k) = RecvTimeout \<or> recv_res w (n_recv w + k) = Chunk []"
  shows "attempts tmo f (Suc n) w =
     attempts tmo f n
       (w\<lparr>sent := sent w @ [f], n_time := n_time w + Suc (Suc k),
          n_recv := n_recv w + Suc k\<rparr>)"
proof -
  let ?w1 = "w\<lparr>sent := sent w @ [f], n_time := Suc (n_time w)\<rparr>"
  have rs: "received ?w1 i j = received w i j" for i j
    by (rule received_script) simp
  have "recv_loop (clock w (n_time w) + tmo) [] ?w1 =
     Inr (None, ?w1\<lparr>n_time := n_time ?w1 + Suc k, n_recv := n_recv ?w1 + Suc k\<rparr>)"
    using assms(2-5) by (intro recv_loop_breaks) (simp_all add: rs)
  with assms(1) show ?thesis
    by (simp add: attempts_unfold del: attempts.simps)
qed

lemma attempts_retry_deadline:
  assumes "send_ok w (length (sent w))"
    and "\<forall>j<k. clock w (Suc (n_time w) + j) < clock w (n_time w) + tmo"
    and "\<forall>j<k. \<exists>c. recv_res w (n_recv w + j) = Chunk c \<and> c \<noteq> []"
    and "length (received w (n_recv w) k) < 6"
    and "\<not> clock w (Suc (n_time w) + k) < clock w (n_time w) + tmo"
  shows "attempts tmo f (Suc n) w =
     attempts tmo f n
       (w\<lparr>sent := sent w @ [f], n_time := n_time w + Suc (Suc k), n_recv := n_recv w + k\<rparr>)"
proof -
  let ?w1 = "w\<lparr>sent := sent w @ [f], n_time := Suc (n_time w)\<rparr>"
  have rs: "received ?w1 i j = received w i j" for i j
    by (rule received_script) simp
  have "recv_loop (clock w (n_time w) + tmo) [] ?w1 =
     Inr (None, ?w1\<lparr>n_time := n_time ?w1 + Suc k, n_recv := n_recv ?w1 + k\<rparr>)"
    using assms(2-5) by (intro recv_loop_deadline) (simp_all add: rs)
  with assms(1) show ?thesis
    by (simp add: attempts_unfold del: attempts.simps)
qed

lemma attempts_raises:
  assumes "send_ok w (length (sent w))"
    and "\<forall>j\<le>k. clock w (Suc (n_time w) + j) < clock w (n_time w) + tmo"
    and "\<forall>j<k. \<exists>c. recv_res w (n_recv w + j) = Chunk c \<and> c \<noteq> []"
    and "length (received w (n_recv w) k) < 6"
    and "recv_res w (n_recv w + k) = RecvError"
  shows "attempts tmo f (Suc n) w = Inl OSError"
proof -
  let ?w1 = "w\<lparr>sent := sent w @ [f], n_time := Suc (n_time w)\<rparr>"
  have rs: "received ?w1 i j = received w i j" for i j
    by (rule received_script) simp
  have "recv_loop (clock w (n_time w) + tmo) [] ?w1 = Inl OSError"
    using assms(2-5) by (intro recv_loop_raises [of k]) (simp_all add: rs)
  with assms(1) show ?thesis
    by (simp add: attempts_unfold del: attempts.simps)
qed

lemma attempts_None_inv:
  "attempts tmo f n w = Inr (None, w') \<Longrightarrow>
     (sent w' = sent w @ replicate n f \<and> (\<forall>j<n. send_ok w (length (sent w) + j)))
   \<or> (\<exists>m<n. sent w' = sent w @ replicate (Suc m) f
          \<and> (\<forall>j<m. send_ok w (length (sent w) + j))
          \<and> \<not> send_ok w (length (sent w) + m))"
proof (induction n arbitrary: w)
  case 0
  then show ?case by simp
next
  case (Suc n)
  let ?w1 = "w\<lparr>sent := sent w @ [f], n_time := Suc (n_time w)\<rparr>"
  show ?case
  proof (cases "send_ok w (length (sent w))")
    case False
    with Suc.prems have "w' = w\<lparr>sent := sent w @ [f]\<rparr>"
      by (simp add: attempts_unfold del: attempts.simps)
    with False show ?thesis by (intro disjI2 exI [of _ 0]) simp
  next
    case True
    with Suc.prems obtain w3 where
      l: "recv_loop (clock w (n_time w) + tmo) [] ?w1 = Inr (None, w3)"
      and a: "attempts tmo f n w3 = Inr (None, w')"
      by (auto simp: attempts_unfold simp del: attempts.simps split: sum.splits option.splits)
    from recv_loop_frame [OF l] have fr: "send_ok w3 = send_ok w" "sent w3 = sent w @ [f]"
      by simp_all
    from Suc.IH [OF a] show ?thesis
    proof
      assume h: "sent w' = sent w3 @ replicate n f \<and> (\<forall>j<n. send_ok w3 (length (sent w3) + j))"
      have "\<forall>j<Suc n. send_ok w (length (sent w) + j)"
      proof (intro allI impI)
        fix j assume "j < Suc n"
        then show "send_ok w (length (sent w) + j)"
          using h True fr by (cases j) auto
      qed
      with h fr show ?thesis by (simp add: replicate_app_Cons_same)
    next
      assume "\<exists>m<n. sent w' = sent w3 @ replicate (Suc m) f
          \<and> (\<forall>j<m. send_ok w3 (length (sent w3) + j))
          \<and> \<not> send_ok w3 (length (sent w3) + m)"
      then obtain m where m: "m < n" "sent w' = sent w3 @ replicate (Suc m) f"
        "\<forall>j<m. send_ok w3 (length (sent w3) + j)" "\<not> send_ok w3 (length (sent w3) + m)"
        by blast
      have "\<forall>j<Suc m. send_ok w (length (sent w) + j)"
      proof (intro allI impI)
        fix j assume "j < Suc m"
        then show "send_ok w (length (sent w) + j)"
          using m(3) True fr by (cases j) auto
      qed
      moreover have "sent w' = sent w @ replicate (Suc (Suc m)) f"
        using m(2) fr by (simp add: replicate_app_Cons_same)
      moreover have "\<not> send_ok w (length (sent w) + Suc m)" using m(4) fr by simp
      ultimately show ?thesis using m(1)
        by (intro disjI2 exI [of _ "Suc m"]) simp
    qed
  qed
qed

lemma attempts_Some_inv:
  "attempts tmo f n w = Inr (Some x, w') \<Longrightarrow>
   \<exists>i k m. n_recv w \<le> i \<and> n_recv w' = i + Suc k \<and> x = received w i (Suc k)
      \<and> length (received w i k) < 6 \<and> 6 \<le> length x
      \<and> (\<forall>j\<le>k. \<exists>c. recv_res w (i + j) = Chunk c \<and> c \<noteq> [])
      \<and> m < n \<and> sent w' = sent w @ replicate (Suc m) f
      \<and> (\<forall>j\<le>m. send_ok w (length (sent w) + j))"
proof (induction n arbitrary: w)
  case 0
  then show ?case by simp
next
  case (Suc n)
  let ?w1 = "w\<lparr>sent := sent w @ [f], n_time := Suc (n_time w)\<rparr>"
  from Suc.prems have ok: "send_ok w (length (sent w))"
    by (auto simp: attempts_unfold simp del: attempts.simps split: if_splits)
  with Suc.prems obtain r3 w3 where
    l: "recv_loop (clock w (n_time w) + tmo) [] ?w1 = Inr (r3, w3)"
    by (auto simp: attempts_unfold simp del: attempts.simps split: sum.splits)
  note fr = recv_loop_frame [OF l]
  show ?case
  proof (cases r3)
    case None
    with Suc.prems ok l have "attempts tmo f n w3 = Inr (Some x, w')"
      by (simp add: attempts_unfold del: attempts.simps)
    from Suc.IH [OF this] obtain i k m where ih:
      "n_recv w3 \<le> i" "n_recv w' = i + Suc k" "x = received w3 i (Suc k)"
      "length (received w3 i k) < 6" "6 \<le> length x"
      "\<forall>j\<le>k. \<exists>c. recv_res w3 (i + j) = Chunk c \<and> c \<noteq> []"
      "m < n" "sent w' = sent w3 @ replicate (Suc m) f"
      "\<forall>j\<le>m. send_ok w3 (length (sent w3) + j)"
      by blast
    have rs: "received w3 a b = received w a b" for a b
      by (rule received_script) (use fr in simp)
    have "\<forall>j\<le>Suc m. send_ok w (length (sent w) + j)"
    proof (intro allI impI)
      fix j assume "j \<le> Suc m"
      then show "send_ok w (length (sent w) + j)"
        using ih(9) ok fr by (cases j) auto
    qed
    moreover have "sent w' = sent w @ replicate (Suc (Suc m)) f"
      using ih(8) fr by (simp add: replicate_app_Cons_same)
    moreover have "n_recv w \<le> i" using ih(1) fr by simp
    ultimately show ?thesis using ih fr
      by (intro exI [of _ i] exI [of _ k] exI [of _ "Suc m"]) (simp add: rs)
  next
    case (Some y)
    with Suc.prems ok l have xy: "x = y" "w' = w3"
      by (simp_all add: attempts_unfold del: attempts.simps)
    from l Some have l': "recv_loop (clock w (n_time w) + tmo) [] ?w1 = Inr (Some y, w3)"
      by simp
    from recv_loop_Some [OF l'] obtain k where k:
      "n_recv w3 = n_recv ?w1 + Suc k" "y = received ?w1 (n_recv ?w1) (Suc k)"
      "length (received ?w1 (n_recv ?w1) k) < 6" "6 \<le> length y"
      by auto
    have rs: "received ?w1 a b = received w a b" for a b
      by (rule received_script) simp
    have "\<forall>j\<le>k. \<exists>c. recv_res w (n_recv w + j) = Chunk c \<and> c \<noteq> []"
      using recv_loop_Some_script [OF l'] k(1) by simp
    with k xy fr ok show ?thesis
      by (intro exI [of _ "n_recv w"] exI [of _ k] exI [of _ 0]) (simp add: rs)
  qed
qed

lemma attempts_error_inv:
  "attempts tmo f n w = Inl e \<Longrightarrow> e = OSError \<and> (\<exists>i\<ge>n_recv w. recv_res w i = RecvError)"
proof (induction n arbitrary: w)
  case 0
  then show ?case by simp
next
  case (Suc n)
  let ?w1 = "w\<lparr>sent := sent w @ [f], n_time := Suc (n_time w)\<rparr>"
  from Suc.prems have ok: "send_ok w (length (sent w))"
    by (auto simp: attempts_unfold simp del: attempts.simps split: if_splits)
  show ?case
  proof (cases "recv_loop (clock w (n_time w) + tmo) [] ?w1")
    case (Inl e')
    with Suc.prems ok have "e' = e" by (simp add: attempts_unfold del: attempts.simps)
    with recv_loop_error_inv [OF Inl] show ?thesis by simp
  next
    case (Inr p)
    obtain r3 w3 where p: "p = (r3, w3)" by (cases p)
    with Inr have l: "recv_loop (clock w (n_time w) + tmo) [] ?w1 = Inr (r3, w3)" by simp
    note fr = recv_loop_frame [OF l]
    from Suc.prems ok l have "attempts tmo f n w3 = Inl e"
      by (cases r3) (simp_all add: attempts_unfold del: attempts.simps)
    from Suc.IH [OF this] obtain i where "e = OSError" "n_recv w3 \<le> i" "recv_res w3 i = RecvError"
      by blast
    with fr show ?thesis by (intro conjI exI [of _ i]) simp_all
  qed
qed

lemma attempts_short_runs:
  assumes "\<forall>i\<ge>n_recv w. recv_res w i \<noteq> RecvError"
    and "\<forall>i\<ge>n_recv w. \<forall>k. (\<forall>j\<le>k. \<exists>c. recv_res w (i + j) = Chunk c \<and> c \<noteq> []) \<longrightarrow>
           length (received w i (Suc k)) < 6"
  shows "\<exists>w'. attempts tmo f n w = Inr (None, w')"
proof (cases "attempts tmo f n w")
  case (Inl e)
  from attempts_error_inv [OF Inl] assms(1) show ?thesis by blast
next
  case (Inr p)
  obtain r w' where p: "p = (r, w')" by (cases p)
  show ?thesis
  proof (cases r)
    case None
    with Inr p show ?thesis by simp
  next
    case (Some x)
    with Inr p have "attempts tmo f n w = Inr (Some x, w')" by simp
    from attempts_Some_inv [OF this] obtain i k where
      "n_recv w \<le> i" "x = received w i (Suc k)" "6 \<le> length x"
      "\<forall>j\<le>k. \<exists>c. recv_res w (i + j) = Chunk c \<and> c \<noteq> []"
      by blast
    with assms(2) have False by (metis not_less)
    then show ?thesis ..
  qed
qed

lemma attempts_short_runs_sent:
  assumes "\<forall>i\<ge>n_recv w. recv_res w i \<noteq> RecvError"
    and "\<forall>i\<ge>n_recv w. \<forall>k. (\<forall>j\<le>k. \<exists>c. recv_res w (i + j) = Chunk c \<and> c \<noteq> []) \<longrightarrow>
           length (received w i (Suc k)) < 6"
  shows "\<exists>w'. attempts tmo f n w = Inr (None, w')
      \<and> ((\<forall>j<n. send_ok w (length (sent w) + j)) \<longrightarrow> sent w' = sent w @ replicate n f)
      \<and> (\<forall>m<n. (\<forall>j<m. send_ok w (length (sent w) + j)) \<and> \<not> send_ok w (length (sent w) + m) \<longrightarrow>
            sent w' = sent w @ replicate (Suc m) f)"
proof -
  from attempts_short_runs [OF assms] obtain w' where a: "attempts tmo f n w = Inr (None, w')"
    by blast
  note inv = attempts_None_inv [OF a]
  have 1: "sent w' = sent w @ replicate n f" if "\<forall>j<n. send_ok w (length (sent w) + j)"
    using inv that by auto
  have 2: "sent w' = sent w @ replicate (Suc m) f"
    if "m < n" "\<forall>j<m. send_ok w (length (sent w) + j)" "\<not> send_ok w (length (sent w) + m)" for m
    using inv
  proof
    assume "sent w' = sent w @ replicate n f \<and> (\<forall>j<n. send_ok w (length (sent w) + j))"
    with that show ?thesis by auto
  next
    assume "\<exists>m<n. sent w' = sent w @ replicate (Suc m) f
          \<and> (\<forall>j<m. send_ok w (length (sent w) + j))
          \<and> \<not> send_ok w (length (sent w) + m)"
    then obtain m' where m': "sent w' = sent w @ replicate (Suc m') f"
      "\<forall>j<m'. send_ok w (length (sent w) + j)" "\<not> send_ok w (length (sent w) + m')"
      by blast
    have "m' = m"
    proof (rule ccontr)
      assume "m' \<noteq> m"
      then consider "m' < m" | "m < m'" by linarith
      then show False
      proof cases
        case 1
        with that(2) m'(3) show False by blast
      next
        case 2
        with m'(2) that(3) show False by blast
      qed
    qed
    with m'(1) show ?thesis by simp
  qed
  from a 1 2 show ?thesis by blast
qed

lemma received_one: "received w i (Suc 0) = chunk_bytes (recv_res w i)"
  by (simp add: received_Suc_front received_0)


section \<open>The retry policy\<close>

text \<open>
  Claim C7, as the code has it. The exchange is the loop \<open>attempts\<close> run for \<open>RETRY\<close>
  attempts. In every attempt, whatever the state and the number of attempts left: when
  the send has succeeded and, after fewer than 6 bytes, a \<open>recv\<close> times out or returns no
  bytes (the connection is closed), or the timeout budget has elapsed, the attempt ends
  and the next attempt is made from the state it left; with no attempt left the exchange
  returns absence. A send error is not retried: the exchange returns absence at once,
  whatever the number of attempts left. Hence the exchange returns absence only after
  all \<open>RETRY\<close> attempts were made or right after a failed send; and when \<open>recv\<close> raises
  nothing but timeouts and no run of consecutive non-empty chunks from the current
  position on holds 6 bytes, it returns absence after \<open>RETRY\<close> sends, or after the first
  send that fails.
\<close>

theorem retry_policy:
  "(build_frame addr_hex cmd_hex = Inr f \<longrightarrow>
      send_frame cfg addr_hex cmd_hex w = attempts (TIMEOUT cfg) f (RETRY cfg) w)
   \<and> attempts tmo f 0 w = Inr (None, w)
   \<and> (send_ok w (length (sent w))
        \<and> (\<forall>j\<le>k. clock w (Suc (n_time w) + j) < clock w (n_time w) + tmo)
        \<and> (\<forall>j<k. \<exists>c. recv_res w (n_recv w + j) = Chunk c \<and> c \<noteq> [])
        \<and> length (received w (n_recv w) k) < 6
        \<and> (recv_res w (n_recv w + k) = RecvTimeout \<or> recv_res w (n_recv w + k) = Chunk []) \<longrightarrow>
      attempts tmo f (Suc n) w =
        attempts tmo f n
          (w\<lparr>sent := sent w @ [f], n_time := n_time w + Suc (Suc k),
             n_recv := n_recv w + Suc k\<rparr>))
   \<and> (send_ok w (length (sent w))
        \<and> (\<forall>j<k. clock w (Suc (n_time w) + j) < clock w (n_time w) + tmo)
        \<and> (\<forall>j<k. \<exists>c. recv_res w (n_recv w + j) = Chunk c \<and> c \<noteq> [])
        \<and> length (received w (n_recv w) k) < 6
        \<and> \<not> clock w (Suc (n_time w) + k) < clock w (n_time w) + tmo \<longrightarrow>
      attempts tmo f (Suc n) w =
        attempts tmo f n
          (w\<lparr>sent := sent w @ [f], n_time := n_time w + Suc (Suc k),
             n_recv := n_recv w + k\<rparr>))
   \<and> (\<not> send_ok w (length (sent w)) \<longrightarrow>
      attempts tmo f (Suc n) w = Inr (None, w\<lparr>sent := sent w @ [f]\<rparr>))
   \<and> (attempts tmo f n w = Inr (None, w') \<longrightarrow>
        (sent w' = sent w @ replicate n f \<and> (\<forall>j<n. send_ok w (length (sent w) + j)))
      \<or> (\<exists>m<n. sent w' = sent w @ replicate (Suc m) f
             \<and> (\<forall>j<m. send_ok w (length (sent w) + j))
             \<and> \<not> send_ok w (length (sent w) + m)))
   \<and> ((\<forall>i\<ge>n_recv w. recv_res w i \<noteq> RecvError)
        \<and> (\<forall>i\<ge>n_recv w. \<forall>k.
              (\<forall>j\<le>k. \<exists>c. recv_res w (i + j) = Chunk c \<and> c \<noteq> []) \<longrightarrow>
              length (received w i (Suc k)) < 6) \<longrightarrow>
      (\<exists>w2. attempts tmo f n w = Inr (None, w2)
         \<and> ((\<forall>j<n. send_ok w (length (sent w) + j)) \<longrightarrow> sent w2 = sent w @ replicate n f)
         \<and> (\<forall>m<n. (\<forall>j<m. send_ok w (length (sent w) + j))
                    \<and> \<not> send_ok w (length (sent w) + m) \<longrightarrow>
                  sent w2 = sent w @ replicate (Suc m) f)))"
proof (intro conjI impI)
  assume "build_frame addr_hex cmd_hex = Inr f"
  then show "send_frame cfg addr_hex cmd_hex w = attempts (TIMEOUT cfg) f (RETRY cfg) w"
    by (rule send_frame_built)
next
  show "attempts tmo f 0 w = Inr (None, w)" by simp
next
  assume "send_ok w (length (sent w))
        \<and> (\<forall>j\<le>k. clock w (Suc (n_time w) + j) < clock w (n_time w) + tmo)
        \<and> (\<forall>j<k. \<exists>c. recv_res w (n_recv w + j) = Chunk c \<and> c \<noteq> [])
        \<and> length (received w (n_recv w) k) < 6
        \<and> (recv_res w (n_recv w + k) = RecvTimeout \<or> recv_res w (n_recv w + k) = Chunk [])"
  then show "attempts tmo f (Suc n) w =
        attempts tmo f n
          (w\<lparr>sent := sent w @ [f], n_time := n_time w + Suc (Suc k),
             n_recv := n_recv w + Suc k\<rparr>)"
    by (intro attempts_retry_break) blast+
next
  assume "send_ok w (length (sent w))
        \<and> (\<forall>j<k. clock w (Suc (n_time w) + j) < clock w (n_time w) + tmo)
        \<and> (\<forall>j<k. \<exists>c. recv_res w (n_recv w + j) = Chunk c \<and> c \<noteq> [])
        \<and> length (received w (n_recv w) k) < 6
        \<and> \<not> clock w (Suc (n_time w) + k) < clock w (n_time w) + tmo"
  then show "attempts tmo f (Suc n) w =
        attempts tmo f n
          (w\<lparr>sent := sent w @ [f], n_time := n_time w + Suc (Suc k),
             n_recv := n_recv w + k\<rparr>)"
    by (intro attempts_retry_deadline) blast+
next
  assume "\<not> send_ok w (length (sent w))"
  then show "attempts tmo f (Suc n) w = Inr (None, w\<lparr>sent := sent w @ [f]\<rparr>)"
    by (rule attempts_send_fails)
next
  assume "attempts tmo f n w = Inr (None, w')"
  then show "(sent w' = sent w @ replicate n f \<and> (\<forall>j<n. send_ok w (length (sent w) + j)))
      \<or> (\<exists>m<n. sent w' = sent w @ replicate (Suc m) f
             \<and> (\<forall>j<m. send_ok w (length (sent w) + j))
             \<and> \<not> send_ok w (length (sent w) + m))"
    by (rule attempts_None_inv)
next
  assume "(\<forall>i\<ge>n_recv w. recv_res w i \<noteq> RecvError)
        \<and> (\<forall>i\<ge>n_recv w. \<forall>k.
              (\<forall>j\<le>k. \<exists>c. recv_res w (i + j) = Chunk c \<and> c \<noteq> []) \<longrightarrow>
              length (received w i (Suc k)) < 6)"
  then show "\<exists>w2. attempts tmo f n w = Inr (None, w2)
         \<and> ((\<forall>j<n. send_ok w (length (sent w) + j)) \<longrightarrow> sent w2 = sent w @ replicate n f)
         \<and> (\<forall>m<n. (\<forall>j<m. send_ok w (length (sent w) + j))
                    \<and> \<not> send_ok w (length (sent w) + m) \<longrightarrow>
                  sent w2 = sent w @ replicate (Suc m) f)"
    by (intro attempts_short_runs_sent) blast+
qed


theorem retry_policy_witness:
  "send_frame \<lparr>TIMEOUT = 8 / 10, RETRY = 2\<rparr> ''0008606D'' ''63''
       (scripted [] [Chunk [1, 2, 3], RecvTimeout, Chunk [4, 5, 6], Chunk []]) =
     Inr (None,
          (scripted [] [Chunk [1, 2, 3], RecvTimeout, Chunk [4, 5, 6], Chunk []])
            \<lparr>sent := [[0x00, 0x08, 0x60, 0x6D, 0x63, 0x4A, 0xC7],
                      [0x00, 0x08, 0x60, 0x6D, 0x63, 0x4A, 0xC7]],
             n_time := 6, n_recv := 4\<rparr>)
   \<and> send_frame \<lparr>TIMEOUT = 8 / 10, RETRY = 4\<rparr> ''0008606D'' ''63''
       (scripted [True, True, False] []) =
     Inr (None,
          (scripted [True, True, False] [])
            \<lparr>sent := [[0x00, 0x08, 0x60, 0x6D, 0x63, 0x4A, 0xC7],
                      [0x00, 0x08, 0x60, 0x6D, 0x63, 0x4A, 0xC7],
                      [0x00, 0x08, 0x60, 0x6D, 0x63, 0x4A, 0xC7]],
             n_time := 4, n_recv := 2\<rparr>)
   \<and> send_frame default_settings ''0008606D'' ''63''
       ((scripted [] [Chunk [1, 2, 3, 4, 5, 6, 7]])\<lparr>clock := real\<rparr>) =
     Inr (None,
          (scripted [] [Chunk [1, 2, 3, 4, 5, 6, 7]])
            \<lparr>clock := real, sent := [[0x00, 0x08, 0x60, 0x6D, 0x63, 0x4A, 0xC7]],
             n_time := 2\<rparr>)
   \<and> (\<exists>w2. send_frame \<lparr>TIMEOUT = 8 / 10, RETRY = 2\<rparr> ''0008606D'' ''27''
              ((scripted [] [Chunk [1, 2, 3], RecvTimeout, Chunk [4, 5, 6], Chunk []])
                 \<lparr>sent := [[0x00, 0x08, 0x60, 0x6D, 0x63, 0x4A, 0xC7]], n_time := 3,
                  n_recv := 1\<rparr>) = Inr (None, w2)
           \<and> sent w2 = [[0x00, 0x08, 0x60, 0x6D, 0x63, 0x4A, 0xC7],
                         [0x00, 0x08, 0x60, 0x6D, 0x27, 0x4A, 0xF4],
                         [0x00, 0x08, 0x60, 0x6D, 0x27, 0x4A, 0xF4]])"
proof -
  let ?f = "[0x00, 0x08, 0x60, 0x6D, 0x63, 0x4A, 0xC7] :: byte list"
  let ?g = "[0x00, 0x08, 0x60, 0x6D, 0x27, 0x4A, 0xF4] :: byte list"
  let ?t = "8 / 10 :: real"
  \<comment> \<open>three bytes and a timeout, then three bytes and a closed connection\<close>
  let ?cfg = "\<lparr>TIMEOUT = ?t, RETRY = 2\<rparr>"
  let ?w = "scripted [] [Chunk [1, 2, 3], RecvTimeout, Chunk [4, 5, 6], Chunk []]"
  let ?w3 = "?w\<lparr>sent := [?f], n_time := 3, n_recv := 2\<rparr>"
  let ?w4 = "?w\<lparr>sent := [?f, ?f], n_time := 6, n_recv := 4\<rparr>"
  have a1: "attempts ?t ?f (Suc (Suc 0)) ?w = attempts ?t ?f (Suc 0) ?w3"
    using retry_policy [of "''0008606D''" "''63''" ?f ?cfg ?w ?t "Suc 0" "Suc 0" ?w,
        THEN conjunct2, THEN conjunct2, THEN conjunct1]
    by (simp add: scripted_def received_one chunk_bytes_def eval_nat_numeral del: attempts.simps)
  have a2: "attempts ?t ?f (Suc 0) ?w3 = attempts ?t ?f 0 ?w4"
    using retry_policy [of "''0008606D''" "''63''" ?f ?cfg ?w3 ?t "Suc 0" 0 ?w,
        THEN conjunct2, THEN conjunct2, THEN conjunct1]
    by (simp add: scripted_def received_one chunk_bytes_def eval_nat_numeral del: attempts.simps)
  have a3: "attempts ?t ?f 0 ?w4 = Inr (None, ?w4)"
    using retry_policy [of "''0008606D''" "''63''" ?f ?cfg ?w4 ?t 0 0 ?w,
        THEN conjunct2, THEN conjunct1] .
  have "send_frame ?cfg ''0008606D'' ''63'' ?w = attempts ?t ?f (Suc (Suc 0)) ?w"
    using retry_policy [of "''0008606D''" "''63''" ?f ?cfg ?w ?t 0 0 ?w, THEN conjunct1]
      build_frame_548973_63
    by (simp add: numeral_2_eq_2 del: attempts.simps)
  with a1 a2 a3 have A: "send_frame ?cfg ''0008606D'' ''63'' ?w = Inr (None, ?w4)" by (simp del: attempts.simps)
  \<comment> \<open>two timeouts, then a send error with one attempt left\<close>
  let ?cfg4 = "\<lparr>TIMEOUT = ?t, RETRY = 4\<rparr>"
  let ?v = "scripted [True, True, False] []"
  let ?v1 = "?v\<lparr>sent := [?f], n_time := 2, n_recv := 1\<rparr>"
  let ?v2 = "?v\<lparr>sent := [?f, ?f], n_time := 4, n_recv := 2\<rparr>"
  have b1: "attempts ?t ?f (Suc (Suc (Suc (Suc 0)))) ?v = attempts ?t ?f (Suc (Suc (Suc 0))) ?v1"
    using retry_policy [of "''0008606D''" "''63''" ?f ?cfg4 ?v ?t 0 "Suc (Suc (Suc 0))" ?v,
        THEN conjunct2, THEN conjunct2, THEN conjunct1]
    by (simp add: scripted_def received_0 eval_nat_numeral del: attempts.simps)
  have b2: "attempts ?t ?f (Suc (Suc (Suc 0))) ?v1 = attempts ?t ?f (Suc (Suc 0)) ?v2"
    using retry_policy [of "''0008606D''" "''63''" ?f ?cfg4 ?v1 ?t 0 "Suc (Suc 0)" ?v,
        THEN conjunct2, THEN conjunct2, THEN conjunct1]
    by (simp add: scripted_def received_0 eval_nat_numeral del: attempts.simps)
  have b3: "attempts ?t ?f (Suc (Suc 0)) ?v2 = Inr (None, ?v2\<lparr>sent := sent ?v2 @ [?f]\<rparr>)"
    using retry_policy [of "''0008606D''" "''63''" ?f ?cfg4 ?v2 ?t 0 "Suc 0" ?v,
        THEN conjunct2, THEN conjunct2, THEN conjunct2, THEN conjunct2, THEN conjunct1]
    by (simp add: scripted_def eval_nat_numeral del: attempts.simps)
  have "send_frame ?cfg4 ''0008606D'' ''63'' ?v = attempts ?t ?f (Suc (Suc (Suc (Suc 0)))) ?v"
    using retry_policy [of "''0008606D''" "''63''" ?f ?cfg4 ?v ?t 0 0 ?v, THEN conjunct1]
      build_frame_548973_63
    by (simp add: eval_nat_numeral del: attempts.simps)
  with b1 b2 b3 have B: "send_frame ?cfg4 ''0008606D'' ''63'' ?v =
      Inr (None, ?v\<lparr>sent := [?f, ?f, ?f], n_time := 4, n_recv := 2\<rparr>)"
    by (simp add: scripted_def eval_nat_numeral del: attempts.simps)
  \<comment> \<open>the timeout budget has elapsed before the first read\<close>
  let ?u = "(scripted [] [Chunk [1, 2, 3, 4, 5, 6, 7]])\<lparr>clock := real\<rparr>"
  have c1: "attempts ?t ?f (Suc 0) ?u =
      attempts ?t ?f 0 (?u\<lparr>sent := [?f], n_time := 2\<rparr>)"
    using retry_policy [of "''0008606D''" "''63''" ?f default_settings ?u ?t 0 0 ?u,
        THEN conjunct2, THEN conjunct2, THEN conjunct2, THEN conjunct1]
    by (simp add: scripted_def received_0 eval_nat_numeral del: attempts.simps)
  have c0: "send_frame default_settings ''0008606D'' ''63'' ?u = attempts ?t ?f (Suc 0) ?u"
    using retry_policy [of "''0008606D''" "''63''" ?f default_settings ?u ?t 0 0 ?u,
        THEN conjunct1] build_frame_548973_63
    by (simp add: default_settings_def del: attempts.simps)
  have c2: "attempts ?t ?f 0 (?u\<lparr>sent := [?f], n_time := 2\<rparr>) =
      Inr (None, ?u\<lparr>sent := [?f], n_time := 2\<rparr>)"
    using retry_policy [of "''0008606D''" "''63''" ?f default_settings
        "?u\<lparr>sent := [?f], n_time := 2\<rparr>" ?t 0 0 ?u, THEN conjunct2, THEN conjunct1] .
  with c0 c1 have C: "send_frame default_settings ''0008606D'' ''63'' ?u =
      Inr (None, ?u\<lparr>sent := [?f], n_time := 2\<rparr>)"
    by (simp del: attempts.simps)
  \<comment> \<open>the closed form, in the state that the first attempt above leaves\<close>
  let ?x = "?w\<lparr>sent := [?f], n_time := 3, n_recv := 1\<rparr>"
  have rs: "recv_res ?x i = recv_res ?w i" for i by simp
  have two: "\<not> ((\<exists>c. recv_res ?w i = Chunk c \<and> c \<noteq> [])
      \<and> (\<exists>c. recv_res ?w (Suc i) = Chunk c \<and> c \<noteq> []))" for i
    by (auto simp: scripted_def nth_Cons split: nat.splits if_splits)
  have small: "length (chunk_bytes (recv_res ?w i)) \<le> 3" for i
    by (auto simp: scripted_def chunk_bytes_def nth_Cons split: nat.splits)
  have ne: "\<forall>i\<ge>n_recv ?x. recv_res ?x i \<noteq> RecvError"
    by (auto simp: scripted_def nth_Cons split: nat.splits)
  have runs: "\<forall>i\<ge>n_recv ?x. \<forall>k.
      (\<forall>j\<le>k. \<exists>c. recv_res ?x (i + j) = Chunk c \<and> c \<noteq> []) \<longrightarrow>
      length (received ?x i (Suc k)) < 6"
  proof (intro allI impI)
    fix i k
    assume h: "\<forall>j\<le>k. \<exists>c. recv_res ?x (i + j) = Chunk c \<and> c \<noteq> []"
    show "length (received ?x i (Suc k)) < 6"
    proof (cases k)
      case 0
      have "received ?x i (Suc 0) = chunk_bytes (recv_res ?w i)"
        by (simp add: received_one)
      with small [of i] 0 show ?thesis by simp
    next
      case (Suc k')
      with h [rule_format, of 0] h [rule_format, of "Suc 0"] two [of i]
      show ?thesis by (simp add: rs)
    qed
  qed
  have sends: "\<forall>j<Suc (Suc 0). send_ok ?x (length (sent ?x) + j)" by (simp add: scripted_def)
  from retry_policy [of "''0008606D''" "''27''" ?g ?cfg ?x ?t 0 "Suc (Suc 0)" ?x,
      THEN conjunct2, THEN conjunct2, THEN conjunct2, THEN conjunct2, THEN conjunct2,
      THEN conjunct2, THEN mp, OF conjI, OF ne runs]
  obtain w2 where d: "attempts ?t ?g (Suc (Suc 0)) ?x = Inr (None, w2)"
    "(\<forall>j<Suc (Suc 0). send_ok ?x (length (sent ?x) + j)) \<longrightarrow>
       sent w2 = sent ?x @ replicate (Suc (Suc 0)) ?g"
    by blast
  have "send_frame ?cfg ''0008606D'' ''27'' ?x = attempts ?t ?g (Suc (Suc 0)) ?x"
    using retry_policy [of "''0008606D''" "''27''" ?g ?cfg ?x ?t 0 0 ?x, THEN conjunct1]
      build_frame_548973_27
    by (simp add: numeral_2_eq_2 del: attempts.simps)
  with d sends have D: "\<exists>w2. send_frame ?cfg ''0008606D'' ''27'' ?x = Inr (None, w2)
      \<and> sent w2 = [?f, ?g, ?g]"
    by (intro exI [of _ w2]) (simp del: attempts.simps)
  from A B C D show ?thesis by blast
qed

text \<open>
  Claim C7 as stated fails for a send error: with an attempt limit of 2 and a transport
  whose first \<open>sendall\<close> fails and whose second would succeed, the exchange returns absence
  after that single \<open>sendall\<close>.
\<close>

theorem send_error_is_not_retried:
  "RETRY \<lparr>TIMEOUT = 8 / 10, RETRY = 2\<rparr> = 2
   \<and> \<not> send_ok (scripted [False, True] []) 0
   \<and> send_ok (scripted [False, True] []) 1
   \<and> send_frame \<lparr>TIMEOUT = 8 / 10, RETRY = 2\<rparr> ''0008606D'' ''63'' (scripted [False, True] []) =
       Inr (None,
            (scripted [False, True] [])\<lparr>sent := [[0x00, 0x08, 0x60, 0x6D, 0x63, 0x4A, 0xC7]]\<rparr>)"
  by (simp add: send_frame_def build_frame_548973_63 sock_sendall_def scripted_def
      numeral_2_eq_2)

section \<open>The exchange\<close>

lemma attempts_no_exception:
  assumes "\<forall>i\<ge>n_recv w. recv_res w i \<noteq> RecvError"
  shows "\<exists>res w2. attempts tmo f n w = Inr (res, w2)"
proof (cases "attempts tmo f n w")
  case (Inl e)
  from attempts_error_inv [OF this] assms show ?thesis by blast
next
  case (Inr p)
  then show ?thesis by (cases p) simp
qed

text \<open>
  Claim C6 as stated fails in two ways. With an attempt limit of 3 and a transport whose
  first \<open>sendall\<close> succeeds and is answered by a timeout and whose second \<open>sendall\<close> fails,
  no attempt accumulates 6 bytes and the exchange returns absence after two attempts,
  with one attempt left. And when \<open>recv\<close> raises an \<open>OSError\<close> other than the timeout
  after a successful send and 3 bytes, the exchange raises it instead of returning
  absence.
\<close>

theorem absence_before_last_attempt_and_exception:
  "RETRY \<lparr>TIMEOUT = 8 / 10, RETRY = 3\<rparr> = 3
   \<and> send_ok (scripted [True, False] []) 0
   \<and> \<not> send_ok (scripted [True, False] []) 1
   \<and> send_frame \<lparr>TIMEOUT = 8 / 10, RETRY = 3\<rparr> ''0008606D'' ''63''
       (scripted [True, False] []) =
     Inr (None,
          (scripted [True, False] [])
            \<lparr>sent := [[0x00, 0x08, 0x60, 0x6D, 0x63, 0x4A, 0xC7],
                      [0x00, 0x08, 0x60, 0x6D, 0x63, 0x4A, 0xC7]],
             n_time := 2, n_recv := 1\<rparr>)
   \<and> send_ok (scripted [] [Chunk [1, 2, 3], RecvError]) 0
   \<and> send_frame default_settings ''0008606D'' ''63''
       (scripted [] [Chunk [1, 2, 3], RecvError]) = Inl OSError"
proof -
  let ?f = "[0x00, 0x08, 0x60, 0x6D, 0x63, 0x4A, 0xC7] :: byte list"
  let ?t = "8 / 10 :: real"
  let ?v = "scripted [True, False] []"
  let ?v1 = "?v\<lparr>sent := [?f], n_time := 2, n_recv := 1\<rparr>"
  have "attempts ?t ?f (Suc (Suc (Suc 0))) ?v = attempts ?t ?f (Suc (Suc 0)) ?v1"
    using attempts_retry_break [of ?v 0 ?t ?f "Suc (Suc 0)"]
    by (simp add: scripted_def received_0 eval_nat_numeral del: attempts.simps)
  moreover have "attempts ?t ?f (Suc (Suc 0)) ?v1 = Inr (None, ?v1\<lparr>sent := sent ?v1 @ [?f]\<rparr>)"
    by (rule attempts_send_fails) (simp add: scripted_def)
  ultimately have A: "send_frame \<lparr>TIMEOUT = ?t, RETRY = 3\<rparr> ''0008606D'' ''63'' ?v =
      Inr (None, ?v\<lparr>sent := [?f, ?f], n_time := 2, n_recv := 1\<rparr>)"
    by (simp add: send_frame_built [OF build_frame_548973_63] numeral_3_eq_3 scripted_def
        del: attempts.simps)
  let ?u = "scripted [] [Chunk [1, 2, 3], RecvError]"
  have "attempts ?t ?f (Suc 0) ?u = Inl OSError"
    by (rule attempts_raises [of ?u "Suc 0"])
      (simp_all add: scripted_def received_one chunk_bytes_def)
  then have B: "send_frame default_settings ''0008606D'' ''63'' ?u = Inl OSError"
    by (simp add: send_frame_built [OF build_frame_548973_63] default_settings_def
        del: attempts.simps)
  from A B show ?thesis by (simp add: scripted_def)
qed

text \<open>
  Claim C6, as the code has it. The exchange is the loop \<open>attempts\<close> run for \<open>RETRY\<close>
  attempts, and one attempt, in whatever state and with whatever number of attempts
  left, does one of five things. After a successful send, when non-empty chunks arrive
  before the deadline and their length first reaches 6 with the chunk number \<open>k\<close>, the
  exchange returns exactly the bytes accumulated in this attempt, and makes no further
  call of \<open>recv\<close> (later bytes stay unread). When, below 6 bytes, a \<open>recv\<close> times out or
  returns no bytes, or the timeout budget has elapsed, the next attempt is made, and
  with no attempt left the exchange returns absence. When, below 6 bytes, a \<open>recv\<close>
  raises an \<open>OSError\<close> other than the timeout, the exchange raises it. When the send
  fails, the exchange returns absence at once. Conversely: a response that the exchange
  returns is what the consecutive calls of \<open>recv\<close> of one attempt returned, all of them
  non-empty, it has at least 6 bytes and had fewer than 6 before the last call, and
  every send up to that attempt succeeded; absence is returned only after all attempts
  have been made with every send successful, or right after the first failed send; an
  exception is an \<open>OSError\<close> that a call of \<open>recv\<close> raised; and when no call of \<open>recv\<close>
  raises one, the exchange raises nothing.
\<close>

theorem exchange_returns_at_six_bytes:
  "(build_frame addr_hex cmd_hex = Inr f \<longrightarrow>
      send_frame cfg addr_hex cmd_hex w = attempts (TIMEOUT cfg) f (RETRY cfg) w)
   \<and> attempts tmo f 0 w = Inr (None, w)
   \<and> (send_ok w (length (sent w))
        \<and> (\<forall>j\<le>k. clock w (Suc (n_time w) + j) < clock w (n_time w) + tmo)
        \<and> (\<forall>j\<le>k. \<exists>c. recv_res w (n_recv w + j) = Chunk c \<and> c \<noteq> [])
        \<and> length (received w (n_recv w) k) < 6
        \<and> 6 \<le> length (received w (n_recv w) (Suc k)) \<longrightarrow>
      attempts tmo f (Suc n) w =
        Inr (Some (received w (n_recv w) (Suc k)),
             w\<lparr>sent := sent w @ [f], n_time := n_time w + Suc (Suc k),
                n_recv := n_recv w + Suc k\<rparr>))
   \<and> (send_ok w (length (sent w))
        \<and> (\<forall>j\<le>k. clock w (Suc (n_time w) + j) < clock w (n_time w) + tmo)
        \<and> (\<forall>j<k. \<exists>c. recv_res w (n_recv w + j) = Chunk c \<and> c \<noteq> [])
        \<and> length (received w (n_recv w) k) < 6
        \<and> (recv_res w (n_recv w + k) = RecvTimeout \<or> recv_res w (n_recv w + k) = Chunk []) \<longrightarrow>
      attempts tmo f (Suc n) w =
        attempts tmo f n
          (w\<lparr>sent := sent w @ [f], n_time := n_time w + Suc (Suc k),
             n_recv := n_recv w + Suc k\<rparr>))
   \<and> (send_ok w (length (sent w))
        \<and> (\<forall>j<k. clock w (Suc (n_time w) + j) < clock w (n_time w) + tmo)
        \<and> (\<forall>j<k. \<exists>c. recv_res w (n_recv w + j) = Chunk c \<and> c \<noteq> [])
        \<and> length (received w (n_recv w) k) < 6
        \<and> \<not> clock w (Suc (n_time w) + k) < clock w (n_time w) + tmo \<longrightarrow>
      attempts tmo f (Suc n) w =
        attempts tmo f n
          (w\<lparr>sent := sent w @ [f], n_time := n_time w + Suc (Suc k),
             n_recv := n_recv w + k\<rparr>))
   \<and> (send_ok w (length (sent w))
        \<and> (\<forall>j\<le>k. clock w (Suc (n_time w) + j) < clock w (n_time w) + tmo)
        \<and> (\<forall>j<k. \<exists>c. recv_res w (n_recv w + j) = Chunk c \<and> c \<noteq> [])
        \<and> length (received w (n_recv w) k) < 6
        \<and> recv_res w (n_recv w + k) = RecvError \<longrightarrow>
      attempts tmo f (Suc n) w = Inl OSError)
   \<and> (\<not> send_ok w (length (sent w)) \<longrightarrow>
      attempts tmo f (Suc n) w = Inr (None, w\<lparr>sent := sent w @ [f]\<rparr>))
   \<and> (attempts tmo f n w = Inr (Some x, w') \<longrightarrow>
      (\<exists>i k m. n_recv w \<le> i \<and> n_recv w' = i + Suc k \<and> x = received w i (Suc k)
          \<and> length (received w i k) < 6 \<and> 6 \<le> length x
          \<and> (\<forall>j\<le>k. \<exists>c. recv_res w (i + j) = Chunk c \<and> c \<noteq> [])
          \<and> m < n \<and> sent w' = sent w @ replicate (Suc m) f
          \<and> (\<forall>j\<le>m. send_ok w (length (sent w) + j))))
   \<and> (attempts tmo f n w = Inr (None, w') \<longrightarrow>
        (sent w' = sent w @ replicate n f \<and> (\<forall>j<n. send_ok w (length (sent w) + j)))
      \<or> (\<exists>m<n. sent w' = sent w @ replicate (Suc m) f
             \<and> (\<forall>j<m. send_ok w (length (sent w) + j))
             \<and> \<not> send_ok w (length (sent w) + m)))
   \<and> (attempts tmo f n w = Inl e \<longrightarrow>
        e = OSError \<and> (\<exists>i\<ge>n_recv w. recv_res w i = RecvError))
   \<and> ((\<forall>i\<ge>n_recv w. recv_res w i \<noteq> RecvError) \<longrightarrow>
        (\<exists>res w2. attempts tmo f n w = Inr (res, w2)))"
proof (intro conjI impI)
  assume "build_frame addr_hex cmd_hex = Inr f"
  then show "send_frame cfg addr_hex cmd_hex w = attempts (TIMEOUT cfg) f (RETRY cfg) w"
    by (rule send_frame_built)
next
  show "attempts tmo f 0 w = Inr (None, w)" by simp
next
  assume "send_ok w (length (sent w))
        \<and> (\<forall>j\<le>k. clock w (Suc (n_time w) + j) < clock w (n_time w) + tmo)
        \<and> (\<forall>j\<le>k. \<exists>c. recv_res w (n_recv w + j) = Chunk c \<and> c \<noteq> [])
        \<and> length (received w (n_recv w) k) < 6
        \<and> 6 \<le> length (received w (n_recv w) (Suc k))"
  then show "attempts tmo f (Suc n) w =
        Inr (Some (received w (n_recv w) (Suc k)),
             w\<lparr>sent := sent w @ [f], n_time := n_time w + Suc (Suc k),
                n_recv := n_recv w + Suc k\<rparr>)"
    by (intro attempts_returns) blast+
next
  assume "send_ok w (length (sent w))
        \<and> (\<forall>j\<le>k. clock w (Suc (n_time w) + j) < clock w (n_time w) + tmo)
        \<and> (\<forall>j<k. \<exists>c. recv_res w (n_recv w + j) = Chunk c \<and> c \<noteq> [])
        \<and> length (received w (n_recv w) k) < 6
        \<and> (recv_res w (n_recv w + k) = RecvTimeout \<or> recv_res w (n_recv w + k) = Chunk [])"
  then show "attempts tmo f (Suc n) w =
        attempts tmo f n
          (w\<lparr>sent := sent w @ [f], n_time := n_time w + Suc (Suc k),
             n_recv := n_recv w + Suc k\<rparr>)"
    by (intro attempts_retry_break) blast+
next
  assume "send_ok w (length (sent w))
        \<and> (\<forall>j<k. clock w (Suc (n_time w) + j) < clock w (n_time w) + tmo)
        \<and> (\<forall>j<k. \<exists>c. recv_res w (n_recv w + j) = Chunk c \<and> c \<noteq> [])
        \<and> length (received w (n_recv w) k) < 6
        \<and> \<not> clock w (Suc (n_time w) + k) < clock w (n_time w) + tmo"
  then show "attempts tmo f (Suc n) w =
        attempts tmo f n
          (w\<lparr>sent := sent w @ [f], n_time := n_time w + Suc (Suc k),
             n_recv := n_recv w + k\<rparr>)"
    by (intro attempts_retry_deadline) blast+
next
  assume "send_ok w (length (sent w))
        \<and> (\<forall>j\<le>k. clock w (Suc (n_time w) + j) < clock w (n_time w) + tmo)
        \<and> (\<forall>j<k. \<exists>c. recv_res w (n_recv w + j) = Chunk c \<and> c \<noteq> [])
        \<and> length (received w (n_recv w) k) < 6
        \<and> recv_res w (n_recv w + k) = RecvError"
  then show "attempts tmo f (Suc n) w = Inl OSError"
    by (intro attempts_raises [of w k]) blast+
next
  assume "\<not> send_ok w (length (sent w))"
  then show "attempts tmo f (Suc n) w = Inr (None, w\<lparr>sent := sent w @ [f]\<rparr>)"
    by (rule attempts_send_fails)
next
  assume "attempts tmo f n w = Inr (Some x, w')"
  then show "\<exists>i k m. n_recv w \<le> i \<and> n_recv w' = i + Suc k \<and> x = received w i (Suc k)
          \<and> length (received w i k) < 6 \<and> 6 \<le> length x
          \<and> (\<forall>j\<le>k. \<exists>c. recv_res w (i + j) = Chunk c \<and> c \<noteq> [])
          \<and> m < n \<and> sent w' = sent w @ replicate (Suc m) f
          \<and> (\<forall>j\<le>m. send_ok w (length (sent w) + j))"
    by (rule attempts_Some_inv)
next
  assume "attempts tmo f n w = Inr (None, w')"
  then show "(sent w' = sent w @ replicate n f \<and> (\<forall>j<n. send_ok w (length (sent w) + j)))
      \<or> (\<exists>m<n. sent w' = sent w @ replicate (Suc m) f
             \<and> (\<forall>j<m. send_ok w (length (sent w) + j))
             \<and> \<not> send_ok w (length (sent w) + m))"
    by (rule attempts_None_inv)
next
  assume "attempts tmo f n w = Inl e"
  then show "e = OSError" by (rule attempts_error_inv [THEN conjunct1])
next
  assume "attempts tmo f n w = Inl e"
  then show "\<exists>i\<ge>n_recv w. recv_res w i = RecvError" by (rule attempts_error_inv [THEN conjunct2])
next
  assume "\<forall>i\<ge>n_recv w. recv_res w i \<noteq> RecvError"
  then show "\<exists>res w2. attempts tmo f n w = Inr (res, w2)" by (rule attempts_no_exception)
qed

theorem exchange_returns_at_six_bytes_witness:
  "send_frame \<lparr>TIMEOUT = 8 / 10, RETRY = 2\<rparr> ''0008606D'' ''63''
       (scripted [] [Chunk [1, 2, 3], RecvTimeout, Chunk [4, 5, 6, 7], Chunk [8, 9, 10],
                     Chunk [11]]) =
     Inr (Some [4, 5, 6, 7, 8, 9, 10],
          (scripted [] [Chunk [1, 2, 3], RecvTimeout, Chunk [4, 5, 6, 7], Chunk [8, 9, 10],
                        Chunk [11]])
            \<lparr>sent := [[0x00, 0x08, 0x60, 0x6D, 0x63, 0x4A, 0xC7],
                      [0x00, 0x08, 0x60, 0x6D, 0x63, 0x4A, 0xC7]],
             n_time := 6, n_recv := 4\<rparr>)
   \<and> recv_res (scripted [] [Chunk [1, 2, 3], RecvTimeout, Chunk [4, 5, 6, 7],
                            Chunk [8, 9, 10], Chunk [11]]) 4 = Chunk [11]
   \<and> (\<exists>i k m. 4 = i + Suc k
          \<and> [4, 5, 6, 7, 8, 9, 10] =
              received (scripted [] [Chunk [1, 2, 3], RecvTimeout, Chunk [4, 5, 6, 7],
                                     Chunk [8, 9, 10], Chunk [11]]) i (Suc k)
          \<and> length (received (scripted [] [Chunk [1, 2, 3], RecvTimeout, Chunk [4, 5, 6, 7],
                                           Chunk [8, 9, 10], Chunk [11]]) i k) < 6
          \<and> m < (2::nat))
   \<and> send_frame default_settings ''0008606D'' ''63''
       ((scripted [] [Chunk [1, 2, 3], Chunk [4, 5, 6, 7]])\<lparr>clock := \<lambda>k. real k / 2\<rparr>) =
     Inr (None,
          (scripted [] [Chunk [1, 2, 3], Chunk [4, 5, 6, 7]])
            \<lparr>clock := \<lambda>k. real k / 2,
             sent := [[0x00, 0x08, 0x60, 0x6D, 0x63, 0x4A, 0xC7]], n_time := 3,
             n_recv := 1\<rparr>)
   \<and> send_frame default_settings ''0008606D'' ''63'' (scripted [] [Chunk [1, 2], RecvError]) =
     Inl OSError
   \<and> (\<exists>i. recv_res (scripted [] [Chunk [1, 2], RecvError]) i = RecvError)
   \<and> send_frame \<lparr>TIMEOUT = 8 / 10, RETRY = 2\<rparr> ''0008606D'' ''63'' (scripted [False] []) =
     Inr (None, (scripted [False] [])\<lparr>sent := [[0x00, 0x08, 0x60, 0x6D, 0x63, 0x4A, 0xC7]]\<rparr>)
   \<and> (\<exists>res w2. send_frame \<lparr>TIMEOUT = 8 / 10, RETRY = 2\<rparr> ''0008606D'' ''27''
                   (scripted [] [Chunk [1, 2, 3], Chunk []]) = Inr (res, w2))"
proof -
  let ?f = "[0x00, 0x08, 0x60, 0x6D, 0x63, 0x4A, 0xC7] :: byte list"
  let ?g = "[0x00, 0x08, 0x60, 0x6D, 0x27, 0x4A, 0xF4] :: byte list"
  let ?t = "8 / 10 :: real"
  let ?cfg = "\<lparr>TIMEOUT = ?t, RETRY = 2\<rparr>"
  note T = exchange_returns_at_six_bytes
    [where addr_hex = "''0008606D''" and cmd_hex = "''63''" and f = ?f and tmo = ?t]
  \<comment> \<open>three bytes and a timeout, then seven bytes in two chunks, and one more chunk\<close>
  let ?w = "scripted [] [Chunk [1, 2, 3], RecvTimeout, Chunk [4, 5, 6, 7], Chunk [8, 9, 10],
                         Chunk [11]]"
  let ?w1 = "?w\<lparr>sent := [?f], n_time := 3, n_recv := 2\<rparr>"
  let ?w2 = "?w\<lparr>sent := [?f, ?f], n_time := 6, n_recv := 4\<rparr>"
  have a0: "send_frame ?cfg ''0008606D'' ''63'' ?w = attempts ?t ?f (Suc (Suc 0)) ?w"
    using T [where cfg = ?cfg and w = ?w, THEN conjunct1] build_frame_548973_63
    by (simp add: numeral_2_eq_2 del: attempts.simps)
  have a1: "attempts ?t ?f (Suc (Suc 0)) ?w = attempts ?t ?f (Suc 0) ?w1"
    using T [where w = ?w and k = "Suc 0" and n = "Suc 0",
        THEN conjunct2, THEN conjunct2, THEN conjunct2, THEN conjunct1]
    by (simp add: scripted_def received_one chunk_bytes_def eval_nat_numeral
        del: attempts.simps)
  have r1: "received ?w1 (Suc (Suc 0)) (Suc 0) = [4, 5, 6, 7]"
    by (simp add: received_one chunk_bytes_def scripted_def)
  have r2: "received ?w1 (Suc (Suc 0)) (Suc (Suc 0)) = [4, 5, 6, 7, 8, 9, 10]"
    by (simp add: received_Suc_front received_0 chunk_bytes_def scripted_def)
  have a2: "attempts ?t ?f (Suc 0) ?w1 = Inr (Some [4, 5, 6, 7, 8, 9, 10], ?w2)"
    using T [where w = ?w1 and k = "Suc 0" and n = 0,
        THEN conjunct2, THEN conjunct2, THEN conjunct1] r1 r2
    by (simp add: scripted_def eval_nat_numeral less_Suc_eq_le le_Suc_eq all_conj_distrib
        del: attempts.simps)
  from a0 a1 a2 have A: "send_frame ?cfg ''0008606D'' ''63'' ?w =
      Inr (Some [4, 5, 6, 7, 8, 9, 10], ?w2)"
    by (simp del: attempts.simps)
  have A': "recv_res ?w 4 = Chunk [11]" by (simp add: scripted_def)
  from a0 A have "attempts ?t ?f (Suc (Suc 0)) ?w = Inr (Some [4, 5, 6, 7, 8, 9, 10], ?w2)"
    by (simp del: attempts.simps)
  from T [where w = ?w and n = "Suc (Suc 0)" and x = "[4, 5, 6, 7, 8, 9, 10]" and w' = ?w2,
      THEN conjunct2, THEN conjunct2, THEN conjunct2, THEN conjunct2, THEN conjunct2,
      THEN conjunct2, THEN conjunct2, THEN conjunct1, THEN mp, OF this]
  obtain i k m where "n_recv ?w2 = i + Suc k" "[4, 5, 6, 7, 8, 9, 10] = received ?w i (Suc k)"
    "length (received ?w i k) < 6" "m < Suc (Suc 0)"
    by blast
  then have "4 = i + Suc k \<and> [4, 5, 6, 7, 8, 9, 10] = received ?w i (Suc k)
      \<and> length (received ?w i k) < 6 \<and> m < 2"
    by (simp add: numeral_2_eq_2)
  then have A'': "\<exists>i k m. 4 = i + Suc k \<and> [4, 5, 6, 7, 8, 9, 10] = received ?w i (Suc k)
      \<and> length (received ?w i k) < 6 \<and> m < (2::nat)"
    by blast
  \<comment> \<open>three bytes, then the timeout budget has elapsed\<close>
  let ?u = "(scripted [] [Chunk [1, 2, 3], Chunk [4, 5, 6, 7]])\<lparr>clock := \<lambda>k. real k / 2\<rparr>"
  let ?u1 = "?u\<lparr>sent := [?f], n_time := 3, n_recv := 1\<rparr>"
  have b0: "send_frame default_settings ''0008606D'' ''63'' ?u = attempts ?t ?f (Suc 0) ?u"
    using T [where cfg = default_settings and w = ?u, THEN conjunct1] build_frame_548973_63
    by (simp add: default_settings_def del: attempts.simps)
  have b1: "attempts ?t ?f (Suc 0) ?u = attempts ?t ?f 0 ?u1"
    using T [where w = ?u and k = "Suc 0" and n = 0,
        THEN conjunct2, THEN conjunct2, THEN conjunct2, THEN conjunct2, THEN conjunct1]
    by (simp add: scripted_def received_one chunk_bytes_def eval_nat_numeral
        del: attempts.simps)
  have b2: "attempts ?t ?f 0 ?u1 = Inr (None, ?u1)"
    using T [where w = ?u1, THEN conjunct2, THEN conjunct1] .
  from b0 b1 b2 have B: "send_frame default_settings ''0008606D'' ''63'' ?u = Inr (None, ?u1)"
    by (simp del: attempts.simps)
  \<comment> \<open>two bytes, then an error of the connection\<close>
  let ?v = "scripted [] [Chunk [1, 2], RecvError]"
  have c0: "send_frame default_settings ''0008606D'' ''63'' ?v = attempts ?t ?f (Suc 0) ?v"
    using T [where cfg = default_settings and w = ?v, THEN conjunct1] build_frame_548973_63
    by (simp add: default_settings_def del: attempts.simps)
  have c1: "attempts ?t ?f (Suc 0) ?v = Inl OSError"
    using T [where w = ?v and k = "Suc 0" and n = 0,
        THEN conjunct2, THEN conjunct2, THEN conjunct2, THEN conjunct2, THEN conjunct2,
        THEN conjunct1]
    by (simp add: scripted_def received_one chunk_bytes_def del: attempts.simps)
  from c0 c1 have C: "send_frame default_settings ''0008606D'' ''63'' ?v = Inl OSError"
    by (simp del: attempts.simps)
  from T [where w = ?v and n = "Suc 0" and e = OSError,
      THEN conjunct2, THEN conjunct2, THEN conjunct2, THEN conjunct2, THEN conjunct2,
      THEN conjunct2, THEN conjunct2, THEN conjunct2, THEN conjunct2, THEN conjunct1,
      THEN mp, OF c1]
  have C': "\<exists>i. recv_res ?v i = RecvError" by blast
  \<comment> \<open>a send error\<close>
  let ?s = "scripted [False] []"
  have d0: "send_frame ?cfg ''0008606D'' ''63'' ?s = attempts ?t ?f (Suc (Suc 0)) ?s"
    using T [where cfg = ?cfg and w = ?s, THEN conjunct1] build_frame_548973_63
    by (simp add: numeral_2_eq_2 del: attempts.simps)
  have d1: "attempts ?t ?f (Suc (Suc 0)) ?s = Inr (None, ?s\<lparr>sent := sent ?s @ [?f]\<rparr>)"
    using T [where w = ?s and n = "Suc 0",
        THEN conjunct2, THEN conjunct2, THEN conjunct2, THEN conjunct2, THEN conjunct2,
        THEN conjunct2, THEN conjunct1]
    by (simp add: scripted_def del: attempts.simps)
  from d0 d1 have D: "send_frame ?cfg ''0008606D'' ''63'' ?s = Inr (None, ?s\<lparr>sent := [?f]\<rparr>)"
    by (simp add: scripted_def del: attempts.simps)
  \<comment> \<open>no exception without an error of the connection\<close>
  let ?y = "scripted [] [Chunk [1, 2, 3], Chunk []]"
  have ne: "\<forall>i\<ge>n_recv ?y. recv_res ?y i \<noteq> RecvError"
    by (auto simp: scripted_def nth_Cons split: nat.splits)
  have e0: "send_frame ?cfg ''0008606D'' ''27'' ?y = attempts ?t ?g (Suc (Suc 0)) ?y"
    using exchange_returns_at_six_bytes
      [where addr_hex = "''0008606D''" and cmd_hex = "''27''" and f = ?g and cfg = ?cfg
        and w = ?y, THEN conjunct1] build_frame_548973_27
    by (simp add: numeral_2_eq_2 del: attempts.simps)
  from exchange_returns_at_six_bytes
      [where f = ?g and tmo = ?t and w = ?y and n = "Suc (Suc 0)",
      THEN conjunct2, THEN conjunct2, THEN conjunct2, THEN conjunct2, THEN conjunct2,
      THEN conjunct2, THEN conjunct2, THEN conjunct2, THEN conjunct2, THEN conjunct2,
      THEN mp, OF ne] e0
  have E: "\<exists>res w2. send_frame ?cfg ''0008606D'' ''27'' ?y = Inr (res, w2)"
    by (simp del: attempts.simps)
  from A A' A'' B C C' D E show ?thesis by blast
qed

end
